theory Spec2Isabelle
  imports Main
begin

section \<open>JavaScript values used by the generator\<close>

text \<open>
  A JavaScript string is a sequence of UTF-16 code units. The model writes one \<^typ>\<open>char\<close>
  per code unit and so covers the strings whose code units are below 256; every regular
  expression of the source is without the \<open>u\<close> flag and works on code units.
\<close>

definition charCode :: "char \<Rightarrow> nat" where
  "charCode c = of_char c"

definition is_digit :: "char \<Rightarrow> bool" where
  "is_digit c = (48 \<le> charCode c \<and> charCode c \<le> 57)"

definition is_lower :: "char \<Rightarrow> bool" where
  "is_lower c = (97 \<le> charCode c \<and> charCode c \<le> 122)"

definition is_upper :: "char \<Rightarrow> bool" where
  "is_upper c = (65 \<le> charCode c \<and> charCode c \<le> 90)"

text \<open>The exceptions of the modelled code: reading a property of \<open>null\<close>.\<close>

datatype exn = TypeError

text \<open>
  \<open>Array.prototype.map\<close> with a callback that may throw: the results in order, or the
  first exception.
\<close>

fun sequence_results :: "(exn + 'a) list \<Rightarrow> exn + 'a list" where
  "sequence_results [] = Inr []"
| "sequence_results (Inl e # rs) = Inl e"
| "sequence_results (Inr x # rs) =
     (case sequence_results rs of Inl e \<Rightarrow> Inl e | Inr xs \<Rightarrow> Inr (x # xs))"

text \<open>\<open>Array.prototype.join\<close> on an array of strings.\<close>

fun join :: "string \<Rightarrow> string list \<Rightarrow> string" where
  "join sep [] = []"
| "join sep [x] = x"
| "join sep (x # y # ys) = x @ sep @ join sep (y # ys)"

subsection \<open>Property enumeration order\<close>

text \<open>
  An object is given by its own properties in the order they were created (for a parsed
  JSON text, the order of the text), with pairwise distinct keys. \<open>Object.entries\<close> and
  \<open>Object.keys\<close> enumerate them as ECMAScript's OrdinaryOwnPropertyKeys does: first the
  keys that are array indices (canonical decimal numerals up to \<open>2^32 - 2\<close>) in ascending
  numeric order, then every other key in creation order.
\<close>

fun index_value :: "string \<Rightarrow> nat" where
  "index_value k = foldl (\<lambda>n c. 10 * n + (charCode c - 48)) 0 k"

definition is_array_index :: "string \<Rightarrow> bool" where
  "is_array_index k =
     (k \<noteq> [] \<and> list_all is_digit k \<and> (k = ''0'' \<or> hd k \<noteq> CHR ''0'')
      \<and> index_value k \<le> 4294967294)"

definition Object_entries :: "(string \<times> 'a) list \<Rightarrow> (string \<times> 'a) list" where
  "Object_entries kvs =
     sort_key (\<lambda>kv. index_value (fst kv)) (filter (\<lambda>kv. is_array_index (fst kv)) kvs)
     @ filter (\<lambda>kv. \<not> is_array_index (fst kv)) kvs"

definition Object_keys :: "(string \<times> 'a) list \<Rightarrow> string list" where
  "Object_keys kvs = map fst (Object_entries kvs)"

subsection \<open>JSON values and \<open>JSON.stringify\<close>\<close>

text \<open>
  The values a parsed JSON text can hold. \<open>JNum\<close> stands for an integer-valued number of
  magnitude below \<open>10^21\<close>, which JavaScript prints in plain decimal; other numbers are
  not modelled.
\<close>

datatype json =
    JNull
  | JBool bool
  | JNum int
  | JStr string
  | JArr "json list"
  | JObj "(string \<times> json) list"

fun show_nat :: "nat \<Rightarrow> string" where
  "show_nat n =
     (if n < 10 then [''0123456789'' ! n]
      else show_nat (n div 10) @ [''0123456789'' ! (n mod 10)])"

definition show_int :: "int \<Rightarrow> string" where
  "show_int i = (if i < 0 then CHR ''-'' # show_nat (nat (- i)) else show_nat (nat i))"

definition hex_digit :: "nat \<Rightarrow> char" where
  "hex_digit n = ''0123456789abcdef'' ! n"

text \<open>
  QuoteJSONString: the double quote and the backslash are escaped, the control
  characters below 0x20 are written as their short escape or as \<open>\u00XX\<close>, and every other
  code unit stands for itself.
\<close>

definition escape_char :: "char \<Rightarrow> string" where
  "escape_char c =
     (let n = charCode c in
      if n = 0x22 then [CHR 0x5C, CHR 0x22]
      else if n = 0x5C then [CHR 0x5C, CHR 0x5C]
      else if n = 8 then [CHR 0x5C, CHR ''b'']
      else if n = 9 then [CHR 0x5C, CHR ''t'']
      else if n = 10 then [CHR 0x5C, CHR ''n'']
      else if n = 12 then [CHR 0x5C, CHR ''f'']
      else if n = 13 then [CHR 0x5C, CHR ''r'']
      else if n < 0x20 then
        [CHR 0x5C, CHR ''u'', CHR ''0'', CHR ''0'', hex_digit (n div 16), hex_digit (n mod 16)]
      else [c])"

definition quote :: "string \<Rightarrow> string" where
  "quote s = [CHR 0x22] @ concat (map escape_char s) @ [CHR 0x22]"

function JSON_stringify :: "json \<Rightarrow> string" where
  "JSON_stringify JNull = ''null''"
| "JSON_stringify (JBool b) = (if b then ''true'' else ''false'')"
| "JSON_stringify (JNum i) = show_int i"
| "JSON_stringify (JStr s) = quote s"
| "JSON_stringify (JArr vs) = ''['' @ join '','' (map JSON_stringify vs) @ '']''"
| "JSON_stringify (JObj kvs) =
     ''{'' @ join '','' (map (\<lambda>(k, v). quote k @ '':'' @ JSON_stringify v) (Object_entries kvs))
     @ ''}''"
  by pat_completeness auto
termination
proof (relation "measure size")
  fix kvs :: "(string \<times> json) list" and x :: "string \<times> json" and k v
  assume "x \<in> set (Object_entries kvs)" and "(k, v) = x"
  then have "(k, v) \<in> set kvs"
    by (auto simp: Object_entries_def)
  then have "size v < Suc (size_list (size_prod (\<lambda>_. 0) size) kvs)"
    by (induction kvs) auto
  then show "(v, JObj kvs) \<in> measure size"
    by simp
next
  fix vs :: "json list" and x
  assume "x \<in> set vs"
  then have "size x < Suc (size_list size vs)"
    by (induction vs) auto
  then show "(x, JArr vs) \<in> measure size"
    by simp
qed simp

section \<open>Schema nodes\<close>

text \<open>
  A keyword that the type \<open>JsonSchema\<close> declares as an array (\<open>enum\<close>, \<open>oneOf\<close>,
  \<open>anyOf\<close>, \<open>allOf\<close>, \<open>required\<close>). The JSON a server sends is cast to that type
  unchecked, so the value can be anything: \<open>Absent\<close> stands for an absent keyword and for
  every falsy value (\<open>null\<close>, \<open>false\<close>, \<open>0\<close>, the empty string), \<open>Array\<close> for an array,
  \<open>Text\<close> for a non-empty string, and \<open>Other\<close> for every other truthy value (a number,
  \<open>true\<close>, an object that is no array).
\<close>

datatype 'a keyword = Absent | Array "'a list" | Text string | Other

fun truthy_keyword :: "'a keyword \<Rightarrow> bool" where
  "truthy_keyword Absent = False"
| "truthy_keyword (Array xs) = True"
| "truthy_keyword (Text s) = (s \<noteq> [])"
| "truthy_keyword Other = True"

text \<open>\<open>a || b\<close> on two such values.\<close>

definition or_keyword :: "'a keyword \<Rightarrow> 'a keyword \<Rightarrow> 'a keyword" where
  "or_keyword a b = (if truthy_keyword a then a else b)"

text \<open>
  The call \<open>value.map(f)\<close> reaches the elements of an array; on every other truthy value
  \<open>map\<close> is no function and the call throws.
\<close>

fun elements :: "'a keyword \<Rightarrow> exn + 'a list" where
  "elements (Array xs) = Inr xs"
| "elements Absent = Inl TypeError"
| "elements (Text s) = Inl TypeError"
| "elements Other = Inl TypeError"

text \<open>
  \<open>new Set(schema.required || [])\<close>: the elements of an array, the characters of a string
  (a string is iterable), and an exception on a value that is not iterable.
\<close>

fun new_Set :: "string keyword \<Rightarrow> exn + string set" where
  "new_Set Absent = Inr {}"
| "new_Set (Array xs) = Inr (set xs)"
| "new_Set (Text s) = Inr (set (map (\<lambda>c. [c]) s))"
| "new_Set Other = Inl TypeError"

text \<open>\<open>properties || []\<close> for the optional list of properties.\<close>

definition or_empty :: "'a list option \<Rightarrow> 'a list" where
  "or_empty a = (case a of Some x \<Rightarrow> x | None \<Rightarrow> [])"

text \<open>
  The type \<open>JsonSchema\<close> of the source. A child position can also hold a value that is
  no object (\<open>null\<close>, a boolean, a number, a string): the translators test for it at their
  entry. \<open>additionalProperties\<close> is \<open>boolean | JsonSchema\<close> in the source; its booleans
  are \<open>NonObject (PBool b)\<close> here. \<open>properties\<close> holds the own properties in creation
  order. Values of the other keywords that are not of the declared type have a term as
  well, since the code treats them like one that is: a \<open>type\<close> that is no string like an
  unknown type name, a falsy value like an absent keyword, \<open>properties\<close> that are no plain
  object like the list of their own enumerable properties, a non-string element of
  \<open>required\<close> like none, and a node that is an array like a node without keywords.
\<close>

datatype prim = PNull | PBool bool | PNum int | PStr string

datatype schema =
    NonObject prim
  | Schema
      (type: "string option")
      (properties: "(string \<times> schema) list option")
      (required: "string keyword")
      (items: "schema option")
      (description: "string option")
      (enum: "json keyword")
      (oneOf: "schema keyword")
      (anyOf: "schema keyword")
      (allOf: "schema keyword")
      (ref: "string option")
      (default: "json option")
      (additionalProperties: "schema option")

text \<open>Truthiness and \<open>typeof\<close> of a value at a schema position.\<close>

fun truthy :: "schema \<Rightarrow> bool" where
  "truthy (NonObject PNull) = False"
| "truthy (NonObject (PBool b)) = b"
| "truthy (NonObject (PNum i)) = (i \<noteq> 0)"
| "truthy (NonObject (PStr s)) = (s \<noteq> [])"
| "truthy (Schema ty props req its desc en oo ao alo rf dflt addl) = True"

fun typeof :: "schema \<Rightarrow> string" where
  "typeof (NonObject PNull) = ''object''"
| "typeof (NonObject (PBool b)) = ''boolean''"
| "typeof (NonObject (PNum i)) = ''number''"
| "typeof (NonObject (PStr s)) = ''string''"
| "typeof (Schema ty props req its desc en oo ao alo rf dflt addl) = ''object''"

section \<open>The translator of \<open>src/index.ts\<close>\<close>

text \<open>
  \<open>jsonSchemaToTS\<close> and \<open>objectSchemaToTS\<close> of the type-alias generator. The first
  equation is the guard \<open>!schema || typeof schema !== "object"\<close>, which every value
  that is no object meets. \<open>objectSchemaToTS\<close> has no guard: on \<open>null\<close> its first
  property read throws, on another primitive every property read gives \<open>undefined\<close>.
\<close>

function jsonSchemaToTS :: "schema \<Rightarrow> exn + string"
  and objectSchemaToTS :: "schema \<Rightarrow> exn + string" where
  "jsonSchemaToTS (NonObject p) = Inr ''unknown''"
| "jsonSchemaToTS (Schema ty props req its desc en oo ao alo rf dflt addl) =
     (if truthy_keyword en then
        (case elements en of
           Inl e \<Rightarrow> Inl e
         | Inr vs \<Rightarrow> Inr (join '' | '' (map JSON_stringify vs)))
      else if truthy_keyword oo \<or> truthy_keyword ao then
        (case elements (or_keyword (or_keyword oo ao) (Array [])) of
           Inl e \<Rightarrow> Inl e
         | Inr variants \<Rightarrow>
             (case sequence_results (map jsonSchemaToTS variants) of
                Inl e \<Rightarrow> Inl e
              | Inr ts \<Rightarrow> Inr (join '' | '' ts)))
      else if truthy_keyword alo then
        (case elements alo of
           Inl e \<Rightarrow> Inl e
         | Inr vs \<Rightarrow>
             (case sequence_results (map jsonSchemaToTS vs) of
                Inl e \<Rightarrow> Inl e
              | Inr ts \<Rightarrow> Inr (join '' & '' ts)))
      else if ty = Some ''string'' then Inr ''string''
      else if ty = Some ''number'' \<or> ty = Some ''integer'' then Inr ''number''
      else if ty = Some ''boolean'' then Inr ''boolean''
      else if ty = Some ''null'' then Inr ''null''
      else if ty = Some ''array'' then
        (case its of
           Some it \<Rightarrow>
             if truthy it then
               (case jsonSchemaToTS it of
                  Inl e \<Rightarrow> Inl e
                | Inr t \<Rightarrow> Inr (''('' @ t @ '')[]''))
             else Inr ''unknown[]''
         | None \<Rightarrow> Inr ''unknown[]'')
      else objectSchemaToTS (Schema ty props req its desc en oo ao alo rf dflt addl))"
| "objectSchemaToTS (NonObject p) = (if p = PNull then Inl TypeError else Inr ''{}'')"
| "objectSchemaToTS (Schema ty props req its desc en oo ao alo rf dflt addl) =
     (if (case props of None \<Rightarrow> True | Some ps \<Rightarrow> length (Object_keys ps) = 0) then
        (case addl of
           Some a \<Rightarrow>
             if a = NonObject (PBool True) then Inr ''Record<string, unknown>''
             else if typeof a = ''object'' then
               (case jsonSchemaToTS a of
                  Inl e \<Rightarrow> Inl e
                | Inr t \<Rightarrow> Inr (''Record<string, '' @ t @ ''>''))
             else Inr ''{}''
         | None \<Rightarrow> Inr ''{}'')
      else
        (case new_Set req of
           Inl e \<Rightarrow> Inl e
         | Inr req_set \<Rightarrow>
             (case sequence_results
                     (map (\<lambda>(key, prop).
                             let opt = (if key \<in> req_set then '''' else ''?'') in
                             case jsonSchemaToTS prop of
                               Inl e \<Rightarrow> Inl e
                             | Inr t \<Rightarrow> Inr (key @ opt @ '': '' @ t))
                        (Object_entries (or_empty props))) of
                Inl e \<Rightarrow> Inl e
              | Inr fields \<Rightarrow> Inr (''{ '' @ join ''; '' fields @ '' }''))))"
  by pat_completeness auto
termination
proof -
  have mem_list: "size x < Suc (size_list size xs)" if "x \<in> set xs" for x :: schema and xs
    using that by (induction xs) auto
  have mem: "size x < Suc (size_keyword size k)"
    if "elements k = Inr xs" and "x \<in> set xs" for x :: schema and xs k
    using that mem_list [of x xs] by (cases k) auto
  have memp: "size v < Suc (size_list (size_prod (\<lambda>_. 0) size) kvs)"
    if "(k, v) \<in> set kvs" for k :: string and v :: schema and kvs
    using that by (induction kvs) auto
  have ent: "set (Object_entries kvs) = set kvs" for kvs :: "(string \<times> schema) list"
    by (auto simp: Object_entries_def)
  show ?thesis
    by (relation "measure (\<lambda>x. case x of Inl s \<Rightarrow> 2 * size s + 1 | Inr s \<Rightarrow> 2 * size s)")
       (auto split: option.splits if_splits simp: ent or_empty_def or_keyword_def
          dest!: mem memp)
qed

section \<open>The translator with indentation (the line-writing generator)\<close>

text \<open>\<open>String.prototype.repeat\<close>.\<close>

definition repeat :: "string \<Rightarrow> nat \<Rightarrow> string" where
  "repeat s n = concat (replicate n s)"

text \<open>
  The read \<open>prop.description\<close> on a property value: \<open>null\<close> throws, another primitive
  has no such property.
\<close>

fun prop_description :: "schema \<Rightarrow> exn + string option" where
  "prop_description (NonObject p) = (if p = PNull then Inl TypeError else Inr None)"
| "prop_description (Schema ty props req its desc en oo ao alo rf dflt addl) = Inr desc"

text \<open>
  \<open>jsonSchemaToTS(schema, indent = 0)\<close>. The source writes the lines of an object type
  twice, under \<open>case "object"\<close> and under \<open>default\<close>; so does the model.
\<close>

function jsonSchemaToTS_indent :: "schema \<Rightarrow> nat \<Rightarrow> exn + string" where
  "jsonSchemaToTS_indent (NonObject p) indent = Inr ''unknown''"
| "jsonSchemaToTS_indent (Schema ty props req its desc en oo ao alo rf dflt addl) indent =
     (let spaces = repeat ''  '' indent in
      if truthy_keyword en then
        (case elements en of
           Inl e \<Rightarrow> Inl e
         | Inr vs \<Rightarrow> Inr (join '' | '' (map JSON_stringify vs)))
      else if truthy_keyword oo \<or> truthy_keyword ao then
        (case elements (or_keyword (or_keyword oo ao) (Array [])) of
           Inl e \<Rightarrow> Inl e
         | Inr variants \<Rightarrow>
             (case sequence_results (map (\<lambda>v. jsonSchemaToTS_indent v indent) variants) of
                Inl e \<Rightarrow> Inl e
              | Inr ts \<Rightarrow> Inr (join '' | '' ts)))
      else if truthy_keyword alo then
        (case elements alo of
           Inl e \<Rightarrow> Inl e
         | Inr vs \<Rightarrow>
             (case sequence_results (map (\<lambda>v. jsonSchemaToTS_indent v indent) vs) of
                Inl e \<Rightarrow> Inl e
              | Inr ts \<Rightarrow> Inr (join '' & '' ts)))
      else if ty = Some ''string'' then Inr ''string''
      else if ty = Some ''number'' \<or> ty = Some ''integer'' then Inr ''number''
      else if ty = Some ''boolean'' then Inr ''boolean''
      else if ty = Some ''null'' then Inr ''null''
      else if ty = Some ''array'' then
        (case its of
           Some it \<Rightarrow>
             if truthy it then
               (case jsonSchemaToTS_indent it indent of
                  Inl e \<Rightarrow> Inl e
                | Inr t \<Rightarrow> Inr (t @ ''[]''))
             else Inr ''unknown[]''
         | None \<Rightarrow> Inr ''unknown[]'')
      else if ty = Some ''object'' then
        (if (case props of None \<Rightarrow> True | Some ps \<Rightarrow> length (Object_keys ps) = 0) then
           (case addl of
              Some a \<Rightarrow>
                if a = NonObject (PBool True) then Inr ''Record<string, unknown>''
                else if truthy a \<and> typeof a = ''object'' then
                  (case jsonSchemaToTS_indent a indent of
                     Inl e \<Rightarrow> Inl e
                   | Inr t \<Rightarrow> Inr (''Record<string, '' @ t @ ''>''))
                else Inr ''Record<string, unknown>''
            | None \<Rightarrow> Inr ''Record<string, unknown>'')
         else
           (case new_Set req of
              Inl e \<Rightarrow> Inl e
            | Inr req_set \<Rightarrow>
                (case sequence_results
                        (map (\<lambda>(key, prop).
                                let optional = (if key \<in> req_set then '''' else ''?'') in
                                case prop_description prop of
                                  Inl e \<Rightarrow> Inl e
                                | Inr d \<Rightarrow>
                                    let comment =
                                      (case d of
                                         Some ds \<Rightarrow>
                                           if ds \<noteq> [] then
                                             spaces @ ''  /** '' @ ds @ '' */\<newline>''
                                           else []
                                       | None \<Rightarrow> [])
                                    in
                                    case jsonSchemaToTS_indent prop (indent + 1) of
                                      Inl e \<Rightarrow> Inl e
                                    | Inr t \<Rightarrow>
                                        Inr (comment @ spaces @ ''  '' @ key @ optional
                                             @ '': '' @ t @ '';''))
                           (Object_entries (or_empty props))) of
                   Inl e \<Rightarrow> Inl e
                 | Inr lines \<Rightarrow>
                     Inr (''{\<newline>'' @ join ''\<newline>'' lines @ ''\<newline>'' @ spaces @ ''}''))))
      else
        (case props of
           Some ps \<Rightarrow>
             (case new_Set req of
                Inl e \<Rightarrow> Inl e
              | Inr req_set \<Rightarrow>
                  (case sequence_results
                          (map (\<lambda>(key, prop).
                                  let optional = (if key \<in> req_set then '''' else ''?'') in
                                  case prop_description prop of
                                    Inl e \<Rightarrow> Inl e
                                  | Inr d \<Rightarrow>
                                      let comment =
                                        (case d of
                                           Some ds \<Rightarrow>
                                             if ds \<noteq> [] then
                                               spaces @ ''  /** '' @ ds @ '' */\<newline>''
                                             else []
                                         | None \<Rightarrow> [])
                                      in
                                      case jsonSchemaToTS_indent prop (indent + 1) of
                                        Inl e \<Rightarrow> Inl e
                                      | Inr t \<Rightarrow>
                                          Inr (comment @ spaces @ ''  '' @ key @ optional
                                               @ '': '' @ t @ '';''))
                             (Object_entries ps)) of
                     Inl e \<Rightarrow> Inl e
                   | Inr lines \<Rightarrow>
                       Inr (''{\<newline>'' @ join ''\<newline>'' lines @ ''\<newline>'' @ spaces @ ''}'')))
         | None \<Rightarrow> Inr ''unknown''))"
  by pat_completeness auto
termination
proof -
  have mem_list: "size x < Suc (size_list size xs)" if "x \<in> set xs" for x :: schema and xs
    using that by (induction xs) auto
  have mem: "size x < Suc (size_keyword size k)"
    if "elements k = Inr xs" and "x \<in> set xs" for x :: schema and xs k
    using that mem_list [of x xs] by (cases k) auto
  have memp: "size v < Suc (size_list (size_prod (\<lambda>_. 0) size) kvs)"
    if "(k, v) \<in> set kvs" for k :: string and v :: schema and kvs
    using that by (induction kvs) auto
  have ent: "set (Object_entries kvs) = set kvs" for kvs :: "(string \<times> schema) list"
    by (auto simp: Object_entries_def)
  show ?thesis
    by (relation "measure (\<lambda>(s, n). size s)")
       (auto split: option.splits if_splits simp: ent or_empty_def or_keyword_def
          dest!: mem memp)
qed

section \<open>Identifier helpers\<close>

text \<open>\<open>name.replace(/[^a-zA-Z0-9_]/g, "_")\<close>.\<close>

definition is_ident_char :: "char \<Rightarrow> bool" where
  "is_ident_char c = (is_lower c \<or> is_upper c \<or> is_digit c \<or> c = CHR ''_'')"

definition toValidIdentifier :: "string \<Rightarrow> string" where
  "toValidIdentifier name = map (\<lambda>c. if is_ident_char c then c else CHR ''_'') name"

text \<open>
  \<open>str.split(/[-_\s]/)\<close>: the white space of \<open>\s\<close> below 256 is tab, line feed,
  vertical tab, form feed, carriage return, space and the no-break space.
\<close>

definition is_space :: "char \<Rightarrow> bool" where
  "is_space c = (charCode c \<in> {9, 10, 11, 12, 13, 32, 160})"

definition is_separator :: "char \<Rightarrow> bool" where
  "is_separator c = (c = CHR ''-'' \<or> c = CHR ''_'' \<or> is_space c)"

fun split_on :: "(char \<Rightarrow> bool) \<Rightarrow> string \<Rightarrow> string list" where
  "split_on p [] = [[]]"
| "split_on p (c # cs) =
     (if p c then [] # split_on p cs
      else (case split_on p cs of [] \<Rightarrow> [[c]] | w # ws \<Rightarrow> (c # w) # ws))"

text \<open>
  \<open>toUpperCase\<close> on one code unit, exact on ASCII; \<open>toPascalCase\<close> is only ever applied
  to the result of \<open>toValidIdentifier\<close>, which is ASCII.
\<close>

definition toUpperCase_char :: "char \<Rightarrow> char" where
  "toUpperCase_char c =
     (if is_lower c then ''ABCDEFGHIJKLMNOPQRSTUVWXYZ'' ! (charCode c - 97) else c)"

definition capitalize :: "string \<Rightarrow> string" where
  "capitalize word = (case word of [] \<Rightarrow> [] | c # cs \<Rightarrow> toUpperCase_char c # cs)"

definition toPascalCase :: "string \<Rightarrow> string" where
  "toPascalCase str = concat (map capitalize (split_on is_separator str))"

section \<open>Tool descriptors and the line-writing generator\<close>

record tool =
  tool_name :: string
  tool_description :: "string option"
  inputSchema :: schema
  outputSchema :: "schema option"

text \<open>
  One round of \<open>tools.forEach\<close> in \<open>main\<close> of the line-writing generator: the lines it
  pushes onto \<open>lines\<close>. An exception of the translator leaves the loop and \<open>main\<close>.
\<close>

definition push_tool :: "string list \<Rightarrow> tool \<Rightarrow> exn + string list" where
  "push_tool lines t =
     (let typeName = toPascalCase (toValidIdentifier (tool_name t)) @ ''Params'' in
      case jsonSchemaToTS_indent (inputSchema t) 0 of
        Inl e \<Rightarrow> Inl e
      | Inr tsType \<Rightarrow>
          (let lines1 = lines @ [''export type '' @ typeName @ '' = '' @ tsType @ '';'', []]
           in
           case outputSchema t of
             None \<Rightarrow> Inr lines1
           | Some out \<Rightarrow>
               if truthy out then
                 (let outputTypeName = toPascalCase (toValidIdentifier (tool_name t)) @ ''Output''
                  in
                  case jsonSchemaToTS_indent out 0 of
                    Inl e \<Rightarrow> Inl e
                  | Inr outputTsType \<Rightarrow>
                      Inr (lines1 @
                        [''export type '' @ outputTypeName @ '' = '' @ outputTsType @ '';'', []]))
               else Inr lines1))"

fun push_tools :: "string list \<Rightarrow> tool list \<Rightarrow> exn + string list" where
  "push_tools lines [] = Inr lines"
| "push_tools lines (t # ts) =
     (case push_tool lines t of Inl e \<Rightarrow> Inl e | Inr lines' \<Rightarrow> push_tools lines' ts)"

text \<open>The second \<open>forEach\<close>: one line per tool name, a comma after all but the last.\<close>

fun name_lines :: "tool list \<Rightarrow> string list" where
  "name_lines [] = []"
| "name_lines [t] = [''  '' @ quote (tool_name t)]"
| "name_lines (t # u # ts) = (''  '' @ quote (tool_name t) @ '','') # name_lines (u # ts)"

text \<open>
  \<open>main\<close> from the listing of the tools on. With no tool it warns and exits before
  anything is written. Otherwise the array \<open>lines\<close> is built and written to the file; an
  exception of the translator leaves \<open>main\<close>, and nothing is written.
\<close>

datatype run = NoToolsFound | Threw exn | Wrote "string list"

definition main_lines :: "tool list \<Rightarrow> run" where
  "main_lines tools =
     (if length tools = 0 then NoToolsFound
      else
        (case push_tools
                [''// Auto-generated by mcp-to-typescript-codegen'', ''// Do not edit manually'',
                 []]
                tools of
           Inl e \<Rightarrow> Threw e
         | Inr lines \<Rightarrow>
             Wrote (lines
                    @ [''export type ToolName = ''
                         @ join '' | '' (map (\<lambda>t. quote (tool_name t)) tools) @ '';'',
                       [],
                       ''export const toolNames = ['']
                    @ name_lines tools
                    @ [''] as const;''])))"

section \<open>The pass \<open>fixZodSchema\<close>\<close>

text \<open>
  The regular expression
  \<^verbatim>\<open>/(\.(string|number|boolean|date|bigint|symbol)\(\))((?:\.[a-z]+\([^)]*\))*)\.default\(null\)/g\<close>
  piece by piece. Every matcher returns what it matched and the rest of the input.
\<close>

definition strip_prefix :: "string \<Rightarrow> string \<Rightarrow> string option" where
  "strip_prefix p s = (if take (length p) s = p then Some (drop (length p) s) else None)"

text \<open>Group 1: a dot, one of the six names tried in order, and \<open>()\<close>.\<close>

fun match_names :: "string list \<Rightarrow> string \<Rightarrow> (string \<times> string) option" where
  "match_names [] s = None"
| "match_names (n # ns) s =
     (case strip_prefix (''.'' @ n @ ''()'') s of
        Some r \<Rightarrow> Some (''.'' @ n @ ''()'', r)
      | None \<Rightarrow> match_names ns s)"

definition match_primitive :: "string \<Rightarrow> (string \<times> string) option" where
  "match_primitive s =
     match_names [''string'', ''number'', ''boolean'', ''date'', ''bigint'', ''symbol''] s"

text \<open>
  One round of the starred group: a dot, the longest run of \<open>[a-z]\<close> (not empty), an
  opening parenthesis, everything up to the first closing parenthesis, and that
  parenthesis.
\<close>

definition match_method :: "string \<Rightarrow> (string \<times> string) option" where
  "match_method s =
     (case s of
        [] \<Rightarrow> None
      | d # r1 \<Rightarrow>
          if d \<noteq> CHR ''.'' then None
          else
            (let letters = takeWhile is_lower r1; r2 = dropWhile is_lower r1 in
             if letters = [] then None
             else
               (case r2 of
                  [] \<Rightarrow> None
                | b # r3 \<Rightarrow>
                    if b \<noteq> CHR ''('' then None
                    else
                      (let args = takeWhile (\<lambda>c. c \<noteq> CHR '')'') r3;
                           r4 = dropWhile (\<lambda>c. c \<noteq> CHR '')'') r3
                       in
                       case r4 of
                         [] \<Rightarrow> None
                       | c # r5 \<Rightarrow> Some (''.'' @ letters @ ''('' @ args @ '')'', r5)))))"

definition match_default :: "string \<Rightarrow> (string \<times> string) option" where
  "match_default s =
     (case strip_prefix ''.default(null)'' s of Some r \<Rightarrow> Some ([], r) | None \<Rightarrow> None)"

text \<open>
  Group 3 and the final \<open>.default(null)\<close>: the star is greedy, so one more round is tried
  first, and only when nothing matches after it does the matcher fall back to
  \<open>.default(null)\<close> here.
\<close>

function match_chain :: "string \<Rightarrow> (string \<times> string) option" where
  "match_chain s =
     (case match_method s of
        Some (m, r) \<Rightarrow>
          (case match_chain r of
             Some (g3, r') \<Rightarrow> Some (m @ g3, r')
           | None \<Rightarrow> match_default s)
      | None \<Rightarrow> match_default s)"
  by pat_completeness auto
termination
proof (relation "measure length")
  fix s m r and x :: "string \<times> string"
  assume "match_method s = Some x" and "(m, r) = x"
  then have *: "match_method s = Some (m, r)"
    by simp
  have step: "length r5 < length r1"
    if "dropWhile P r1 = b # r3" and "dropWhile Q r3 = c # r5"
    for P Q :: "char \<Rightarrow> bool" and r1 r3 r5 b c
  proof -
    have "Suc (length r3) \<le> length r1"
      using that(1) length_dropWhile_le [of P r1] by simp
    moreover have "Suc (length r5) \<le> length r3"
      using that(2) length_dropWhile_le [of Q r3] by simp
    ultimately show ?thesis
      by simp
  qed
  from * have "length r < length s"
    by (auto simp: match_method_def Let_def split: list.splits if_splits dest: step)
  then show "(r, s) \<in> measure length"
    by simp
qed simp

declare match_chain.simps [simp del]

text \<open>A match at the head of the input: the replacement text and the rest.\<close>

definition match_at :: "string \<Rightarrow> (string \<times> string) option" where
  "match_at s =
     (case match_primitive s of
        None \<Rightarrow> None
      | Some (g1, r) \<Rightarrow>
          (case match_chain r of
             None \<Rightarrow> None
           | Some (g3, r') \<Rightarrow> Some (g1 @ ''.nullable()'' @ g3 @ ''.default(null)'', r')))"

text \<open>
  \<open>zodString.replace(re, "$1.nullable()$3.default(null)")\<close> with the flag \<open>g\<close>: the input
  is scanned from the left; where the expression matches, the replacement is written and
  the scan goes on behind the match, elsewhere one code unit is copied.
\<close>

function fixZodSchema :: "string \<Rightarrow> string" where
  "fixZodSchema s =
     (case match_at s of
        Some (rep, r) \<Rightarrow> rep @ fixZodSchema r
      | None \<Rightarrow> (case s of [] \<Rightarrow> [] | c # cs \<Rightarrow> c # fixZodSchema cs))"
  by pat_completeness auto
termination
proof (relation "measure length")
  fix s rep r and x :: "string \<times> string"
  assume "match_at s = Some x" and "(rep, r) = x"
  then have at: "match_at s = Some (rep, r)"
    by simp
  have strip: "length r1 < length u" if "strip_prefix p u = Some r1" and "p \<noteq> []"
    for p u r1
  proof -
    from that(1) have "take (length p) u = p" and r1: "r1 = drop (length p) u"
      by (auto simp: strip_prefix_def split: if_splits)
    then have "length (take (length p) u) = length p"
      by simp
    then have "length p \<le> length u"
      by simp
    with that(2) r1 show ?thesis
      by (cases p) auto
  qed
  have names: "length r1 < length u" if "match_names ns u = Some (g, r1)" for ns u g r1
    using that
    by (induction ns) (auto split: option.splits dest: strip)
  have dflt: "length r1 \<le> length u" if "match_default u = Some (g, r1)" for u g r1
    using that by (auto simp: match_default_def strip_prefix_def split: if_splits)
  have meth: "length r1 \<le> length u" if "match_method u = Some (g, r1)" for u g r1
  proof -
    have "length r5 \<le> length r0"
      if "dropWhile P r0 = b # r3" and "dropWhile Q r3 = c # r5"
      for P Q :: "char \<Rightarrow> bool" and r0 r3 r5 b c
      using that length_dropWhile_le [of P r0] length_dropWhile_le [of Q r3] by simp
    with that show ?thesis
      by (fastforce simp: match_method_def Let_def split: list.splits if_splits)
  qed
  have chain: "match_chain u = Some (g, r1) \<Longrightarrow> length r1 \<le> length u" for u g r1
  proof (induction u arbitrary: g r1 rule: match_chain.induct)
    case (1 u)
    note unfold = match_chain.simps [of u]
    show ?case
    proof (cases "match_method u")
      case None
      with "1.prems" unfold have "match_default u = Some (g, r1)"
        by simp
      then show ?thesis
        by (rule dflt)
    next
      case (Some mr)
      obtain m r2 where mr: "mr = (m, r2)"
        by (cases mr)
      have r2: "length r2 \<le> length u"
        using meth Some mr by simp
      show ?thesis
      proof (cases "match_chain r2")
        case None
        with "1.prems" unfold Some mr have "match_default u = Some (g, r1)"
          by simp
        then show ?thesis
          by (rule dflt)
      next
        case inner: (Some gr)
        obtain g3 r3 where gr: "gr = (g3, r3)"
          by (cases gr)
        from "1.prems" unfold Some mr inner gr have "r1 = r3"
          by simp
        moreover have "length r3 \<le> length r2"
          using Some mr inner gr by (intro "1.IH" [of mr m r2 g3 r3]) simp_all
        ultimately show ?thesis
          using r2 by simp
      qed
    qed
  qed
  obtain g1 ra g3 where prim: "match_primitive s = Some (g1, ra)"
    and ch: "match_chain ra = Some (g3, r)"
    using at by (auto simp: match_at_def split: option.splits)
  have "length ra < length s"
    using prim unfolding match_primitive_def by (rule names)
  moreover have "length r \<le> length ra"
    using ch by (rule chain)
  ultimately have "length r < length s"
    by simp
  then show "(r, s) \<in> measure length"
    by simp
qed simp_all

section \<open>The runtime-validator generators\<close>

text \<open>
  The statements added to the ts-morph source file, and the calls of \<open>console.warn\<close> in the
  loop over the tools (one constructor for each message of the source).
\<close>

datatype statement =
    ImportDeclaration "string list" string
  | Statements string
  | VariableStatement string string
  | TypeAlias string string

datatype warning =
    FailedToConvertSchema string
  | FailedToConvertOutputSchema string
  | UsingAnyFallback

record gen_state =
  source :: "statement list"
  console :: "warning list"

text \<open>The source file before the loop: the import of \<open>z\<close> and a blank line.\<close>

definition initial_state :: gen_state where
  "initial_state = \<lparr>source = [ImportDeclaration [''z''] ''zod'', Statements []], console = []\<rparr>"

text \<open>\<open>description || fallback\<close>: an absent or empty description is falsy.\<close>

definition or_else :: "string option \<Rightarrow> string \<Rightarrow> string" where
  "or_else d fallback = (case d of None \<Rightarrow> fallback | Some x \<Rightarrow> if x \<noteq> [] then x else fallback)"

text \<open>
  \<open>jsonSchemaToZod\<close> belongs to the package json-schema-to-zod and is a parameter here: it
  returns the expression text or throws. The \<open>try\<close>/\<open>catch\<close> around it keeps the
  preset \<open>"z.any()"\<close> and warns twice when it throws.
\<close>

definition convert_or_any ::
  "(schema \<Rightarrow> 'e + string) \<Rightarrow> (string \<Rightarrow> string) \<Rightarrow> warning \<Rightarrow> schema \<Rightarrow> string \<times> warning list"
where
  "convert_or_any jsonSchemaToZod post failed sch =
     (case jsonSchemaToZod sch of
        Inr z \<Rightarrow> (post z, [])
      | Inl err \<Rightarrow> (''z.any()'', [failed, UsingAnyFallback]))"

text \<open>One round of \<open>tools.forEach\<close> in the script with the fixed server command.\<close>

definition zod_tool :: "(schema \<Rightarrow> 'e + string) \<Rightarrow> gen_state \<Rightarrow> tool \<Rightarrow> gen_state" where
  "zod_tool jsonSchemaToZod st t =
     (let schemaName = toPascalCase (toValidIdentifier (tool_name t)) @ ''Schema'';
          typeName = toPascalCase (toValidIdentifier (tool_name t)) @ ''Params'';
          (zodSchemaString, warned) =
             convert_or_any jsonSchemaToZod (\<lambda>z. z) (FailedToConvertSchema (tool_name t))
               (inputSchema t)
      in
      \<lparr>source = source st @
         [Statements (''/**\<newline> * ''
            @ or_else (tool_description t) (''Parameters for '' @ tool_name t) @ ''\<newline> */''),
          VariableStatement schemaName zodSchemaString,
          TypeAlias typeName (''z.infer<typeof '' @ schemaName @ ''>''),
          Statements []],
       console = console st @ warned\<rparr>)"

definition zod_tools :: "(schema \<Rightarrow> 'e + string) \<Rightarrow> tool list \<Rightarrow> gen_state" where
  "zod_tools jsonSchemaToZod tools = foldl (zod_tool jsonSchemaToZod) initial_state tools"

text \<open>
  One round of \<open>tools.forEach\<close> in the command-line script: the conversion is followed by
  \<open>fixZodSchema\<close>, and a truthy \<open>outputSchema\<close> gets a schema of its own.
\<close>

definition zod_tool_cli :: "(schema \<Rightarrow> 'e + string) \<Rightarrow> gen_state \<Rightarrow> tool \<Rightarrow> gen_state" where
  "zod_tool_cli jsonSchemaToZod st t =
     (let schemaName = toPascalCase (toValidIdentifier (tool_name t)) @ ''Schema'';
          typeName = toPascalCase (toValidIdentifier (tool_name t)) @ ''Params'';
          (zodSchemaString, warned) =
             convert_or_any jsonSchemaToZod fixZodSchema (FailedToConvertSchema (tool_name t))
               (inputSchema t);
          st1 =
            \<lparr>source = source st @
               [Statements (''/**\<newline> * ''
                  @ or_else (tool_description t) (''Parameters for '' @ tool_name t)
                  @ ''\<newline> */''),
                VariableStatement schemaName zodSchemaString,
                TypeAlias typeName (''z.infer<typeof '' @ schemaName @ ''>''),
                Statements []],
             console = console st @ warned\<rparr>
      in
      case outputSchema t of
        None \<Rightarrow> st1
      | Some out \<Rightarrow>
          if truthy out then
            (let outputSchemaName =
                   toPascalCase (toValidIdentifier (tool_name t)) @ ''OutputSchema'';
                 outputTypeName = toPascalCase (toValidIdentifier (tool_name t)) @ ''Output'';
                 (zodOutputString, warned_out) =
                    convert_or_any jsonSchemaToZod fixZodSchema
                      (FailedToConvertOutputSchema (tool_name t)) out
             in
             \<lparr>source = source st1 @
                [Statements (''/**\<newline> * Output for '' @ tool_name t @ ''\<newline> */''),
                 VariableStatement outputSchemaName zodOutputString,
                 TypeAlias outputTypeName (''z.infer<typeof '' @ outputSchemaName @ ''>''),
                 Statements []],
              console = console st1 @ warned_out\<rparr>)
          else st1)"

definition zod_tools_cli :: "(schema \<Rightarrow> 'e + string) \<Rightarrow> tool list \<Rightarrow> gen_state" where
  "zod_tools_cli jsonSchemaToZod tools = foldl (zod_tool_cli jsonSchemaToZod) initial_state tools"

text \<open>The exported constants of a source file, in order: name and initializer.\<close>

fun initializer :: "statement \<Rightarrow> (string \<times> string) list" where
  "initializer (VariableStatement n i) = [(n, i)]"
| "initializer (ImportDeclaration ns m) = []"
| "initializer (Statements txt) = []"
| "initializer (TypeAlias n ty) = []"

definition initializers :: "statement list \<Rightarrow> (string \<times> string) list" where
  "initializers src = concat (map initializer src)"

declare fixZodSchema.simps [simp del]

section \<open>Predicates on schema nodes\<close>

text \<open>The elements of a keyword that is an array, and whether it is an array or absent.\<close>

fun array_elements :: "'a keyword \<Rightarrow> 'a list" where
  "array_elements (Array xs) = xs"
| "array_elements Absent = []"
| "array_elements (Text s) = []"
| "array_elements Other = []"

fun array_or_absent :: "'a keyword \<Rightarrow> bool" where
  "array_or_absent Absent = True"
| "array_or_absent (Array xs) = True"
| "array_or_absent (Text s) = False"
| "array_or_absent Other = False"

text \<open>
  The nodes whose translation is the empty string: the first rule that fires joins an
  empty list, or a list of one variant that is such a node itself.
\<close>

function yields_empty :: "schema \<Rightarrow> bool" where
  "yields_empty (NonObject p) = False"
| "yields_empty (Schema ty props req its desc en oo ao alo rf dflt addl) =
     (if truthy_keyword en then en = Array []
      else if truthy_keyword oo \<or> truthy_keyword ao then
        (case or_keyword oo ao of
           Array vs \<Rightarrow> (case vs of [] \<Rightarrow> True | [v] \<Rightarrow> yields_empty v | v # w # ws \<Rightarrow> False)
         | Absent \<Rightarrow> False
         | Text s \<Rightarrow> False
         | Other \<Rightarrow> False)
      else
        (case alo of
           Array vs \<Rightarrow> (case vs of [] \<Rightarrow> True | [v] \<Rightarrow> yields_empty v | v # w # ws \<Rightarrow> False)
         | Absent \<Rightarrow> False
         | Text s \<Rightarrow> False
         | Other \<Rightarrow> False))"
  by pat_completeness auto
termination
  by (relation "measure size") (auto simp: or_keyword_def split: if_splits)

text \<open>
  The nodes in which, at every depth, \<open>enum\<close>, \<open>oneOf\<close>, \<open>anyOf\<close>, \<open>allOf\<close> and
  \<open>required\<close> are arrays where they are present, as the type \<open>JsonSchema\<close> declares them.
\<close>

function declared_arrays :: "schema \<Rightarrow> bool" where
  "declared_arrays (NonObject p) = True"
| "declared_arrays (Schema ty props req its desc en oo ao alo rf dflt addl) =
     (array_or_absent req \<and> array_or_absent en \<and> array_or_absent oo \<and> array_or_absent ao
      \<and> array_or_absent alo
      \<and> list_all (\<lambda>kv. declared_arrays (snd kv)) (or_empty props)
      \<and> (case its of Some v \<Rightarrow> declared_arrays v | None \<Rightarrow> True)
      \<and> list_all declared_arrays (array_elements oo)
      \<and> list_all declared_arrays (array_elements ao)
      \<and> list_all declared_arrays (array_elements alo)
      \<and> (case addl of Some v \<Rightarrow> declared_arrays v | None \<Rightarrow> True))"
  by pat_completeness auto
termination
proof -
  have mem_list: "size x < Suc (size_list size xs)" if "x \<in> set xs" for x :: schema and xs
    using that by (induction xs) auto
  have mem: "size x < Suc (size_keyword size k)"
    if "x \<in> set (array_elements k)" for x :: schema and k
    using that by (cases k) (auto dest!: mem_list)
  have memp: "size (snd kv) < Suc (size_list (size_prod (\<lambda>_. 0) size) kvs)"
    if "kv \<in> set kvs" for kv :: "string \<times> schema" and kvs
    using that by (induction kvs) auto
  show ?thesis
    by (relation "measure size")
       (auto split: option.splits simp: or_empty_def dest!: mem memp)
qed

text \<open>
  No value under \<open>properties\<close>, anywhere in the node, is \<open>null\<close>.
\<close>

function no_null_properties :: "schema \<Rightarrow> bool" where
  "no_null_properties (NonObject p) = True"
| "no_null_properties (Schema ty props req its desc en oo ao alo rf dflt addl) =
     (list_all (\<lambda>kv. snd kv \<noteq> NonObject PNull \<and> no_null_properties (snd kv)) (or_empty props)
      \<and> (case its of Some v \<Rightarrow> no_null_properties v | None \<Rightarrow> True)
      \<and> list_all no_null_properties (array_elements oo)
      \<and> list_all no_null_properties (array_elements ao)
      \<and> list_all no_null_properties (array_elements alo)
      \<and> (case addl of Some v \<Rightarrow> no_null_properties v | None \<Rightarrow> True))"
  by pat_completeness auto
termination
proof -
  have mem_list: "size x < Suc (size_list size xs)" if "x \<in> set xs" for x :: schema and xs
    using that by (induction xs) auto
  have mem: "size x < Suc (size_keyword size k)"
    if "x \<in> set (array_elements k)" for x :: schema and k
    using that by (cases k) (auto dest!: mem_list)
  have memp: "size (snd kv) < Suc (size_list (size_prod (\<lambda>_. 0) size) kvs)"
    if "kv \<in> set kvs" for kv :: "string \<times> schema" and kvs
    using that by (induction kvs) auto
  show ?thesis
    by (relation "measure size")
       (auto split: option.splits simp: or_empty_def dest!: mem memp)
qed

text \<open>
  A tool on whose schemas the translator with indentation returns: the keywords are of
  the declared types and no value under \<open>properties\<close> is \<open>null\<close>.
\<close>

definition translatable :: "tool \<Rightarrow> bool" where
  "translatable t =
     (declared_arrays (inputSchema t) \<and> no_null_properties (inputSchema t)
      \<and> (case outputSchema t of
            None \<Rightarrow> True
          | Some out \<Rightarrow> declared_arrays out \<and> no_null_properties out))"

text \<open>
  The lines \<open>export type ${typeName} = ${tsType};\<close> and
  \<open>export type ${outputTypeName} = ${outputTsType};\<close> of a tool.
\<close>

definition params_line :: "tool \<Rightarrow> string \<Rightarrow> string" where
  "params_line t ty =
     ''export type '' @ (toPascalCase (toValidIdentifier (tool_name t)) @ ''Params'')
     @ '' = '' @ ty @ '';''"

definition output_line :: "tool \<Rightarrow> string \<Rightarrow> string" where
  "output_line t ty =
     ''export type '' @ (toPascalCase (toValidIdentifier (tool_name t)) @ ''Output'')
     @ '' = '' @ ty @ '';''"

text \<open>The constants \<open>schemaName\<close> and \<open>outputSchemaName\<close> of the validator generators.\<close>

definition schema_name :: "tool \<Rightarrow> string" where
  "schema_name t = toPascalCase (toValidIdentifier (tool_name t)) @ ''Schema''"

definition output_schema_name :: "tool \<Rightarrow> string" where
  "output_schema_name t = toPascalCase (toValidIdentifier (tool_name t)) @ ''OutputSchema''"

section \<open>Concrete inputs\<close>

text \<open>Nodes, tools and a converter used as concrete inputs.\<close>

abbreviation of_type :: "string \<Rightarrow> schema" where
  "of_type t \<equiv>
     Schema (Some t) None Absent None None Absent Absent Absent Absent None None None"

abbreviation with_enum :: "json keyword \<Rightarrow> schema" where
  "with_enum en \<equiv>
     Schema None None Absent None None en Absent Absent Absent None None None"

abbreviation object_of :: "(string \<times> schema) list \<Rightarrow> string keyword \<Rightarrow> schema" where
  "object_of ps req \<equiv>
     Schema (Some ''object'') (Some ps) req None None Absent Absent Absent Absent None None None"

abbreviation do_thing_tools :: "tool list" where
  "do_thing_tools \<equiv>
     [\<lparr>tool_name = ''do-thing'', tool_description = None,
        inputSchema = object_of [(''a'', of_type ''string'')] Absent, outputSchema = None\<rparr>,
      \<lparr>tool_name = ''do_thing'', tool_description = None,
        inputSchema = object_of [(''b'', of_type ''number'')] Absent, outputSchema = None\<rparr>]"

abbreviation only_strings :: "schema \<Rightarrow> unit + string" where
  "only_strings \<equiv> (\<lambda>s. if s = of_type ''string'' then Inr ''z.string()'' else Inl ())"

abbreviation three_tools :: "tool list" where
  "three_tools \<equiv>
     [\<lparr>tool_name = ''a'', tool_description = None,
        inputSchema = of_type ''string'', outputSchema = None\<rparr>,
      \<lparr>tool_name = ''b'', tool_description = None,
        inputSchema = of_type ''number'', outputSchema = None\<rparr>,
      \<lparr>tool_name = ''c'', tool_description = None,
        inputSchema = of_type ''string'', outputSchema = Some (of_type ''number'')\<rparr>]"

text \<open>The definitions unfolded when a concrete input is evaluated.\<close>

lemmas char_defs = charCode_def is_digit_def is_lower_def is_upper_def

lemmas entries_defs = Object_keys_def Object_entries_def is_array_index_def

lemmas ident_defs = toPascalCase_def toValidIdentifier_def is_ident_char_def is_separator_def
  is_space_def capitalize_def toUpperCase_char_def

section \<open>Auxiliary lemmas\<close>

lemma or_empty_simps [simp]: "or_empty None = []" "or_empty (Some xs) = xs"
  by (simp_all add: or_empty_def)

lemma truthy_array_or_absent:
  "array_or_absent k \<Longrightarrow> truthy_keyword k \<Longrightarrow> k = Array (array_elements k)"
  by (cases k) simp_all

lemma falsy_array_or_absent:
  "array_or_absent k \<Longrightarrow> \<not> truthy_keyword k \<Longrightarrow> k = Absent"
  by (cases k) simp_all

lemma new_Set_array_or_absent:
  "array_or_absent k \<Longrightarrow> new_Set k = Inr (set (array_elements k))"
  by (cases k) simp_all

lemma show_nat_nonempty: "show_nat n \<noteq> []"
  by (subst show_nat.simps) simp

lemma quote_nonempty: "quote s \<noteq> []"
  by (simp add: quote_def)

lemma JSON_stringify_nonempty: "JSON_stringify v \<noteq> []"
  by (cases v) (simp_all add: show_int_def show_nat_nonempty quote_nonempty)

lemma join_eq_Nil: "sep \<noteq> [] \<Longrightarrow> join sep ts = [] \<longleftrightarrow> ts = [] \<or> ts = [[]]"
  by (induction sep ts rule: join.induct) auto

lemma sequence_results_map:
  "(\<And>x. x \<in> set xs \<Longrightarrow> \<exists>t. f x = Inr t) \<Longrightarrow>
     sequence_results (map f xs) = Inr (map (\<lambda>x. projr (f x)) xs)"
proof (induction xs)
  case Nil
  show ?case by simp
next
  case (Cons x xs)
  then obtain t where "f x = Inr t"
    by auto
  moreover have "sequence_results (map f xs) = Inr (map (\<lambda>x. projr (f x)) xs)"
    using Cons by simp
  ultimately show ?case
    by simp
qed

lemma union_empty:
  assumes "\<And>v. v \<in> set vs \<Longrightarrow> \<exists>t. f v = Inr t \<and> (t = [] \<longleftrightarrow> E v)"
    and "sep \<noteq> []"
  shows "\<exists>t. (case sequence_results (map f vs) of Inl e \<Rightarrow> Inl e | Inr ts \<Rightarrow> Inr (join sep ts)) = Inr t
          \<and> (t = [] \<longleftrightarrow> (case vs of [] \<Rightarrow> True | [v] \<Rightarrow> E v | v # w # ws \<Rightarrow> False))"
proof -
  have seq: "sequence_results (map f vs) = Inr (map (\<lambda>x. projr (f x)) vs)"
    using assms(1) by (intro sequence_results_map) blast
  have "join sep (map (\<lambda>x. projr (f x)) vs) = [] \<longleftrightarrow>
          (case vs of [] \<Rightarrow> True | [v] \<Rightarrow> E v | v # w # ws \<Rightarrow> False)"
  proof (cases vs)
    case Nil
    then show ?thesis by simp
  next
    case (Cons v ws)
    show ?thesis
    proof (cases ws)
      case Nil
      obtain t where "f v = Inr t" "t = [] \<longleftrightarrow> E v"
        using assms(1) [of v] Cons by auto
      with Cons Nil show ?thesis by simp
    next
      case (Cons w ws')
      with \<open>vs = v # ws\<close> assms(2) show ?thesis
        by (simp add: join_eq_Nil)
    qed
  qed
  with seq show ?thesis
    by simp
qed

lemma jsonSchemaToTS_returns:
  "declared_arrays s \<Longrightarrow>
     (\<exists>t. jsonSchemaToTS s = Inr t \<and> (t = [] \<longleftrightarrow> yields_empty s))
     \<and> (s \<noteq> NonObject PNull \<longrightarrow> (\<exists>t. objectSchemaToTS s = Inr t \<and> t \<noteq> []))"
proof (induction s)
  case (NonObject p)
  show ?case by simp
next
  case (Schema ty props req its desc en oo ao alo rf dflt addl)
  let ?P = "\<lambda>v. \<exists>t. jsonSchemaToTS v = Inr t \<and> (t = [] \<longleftrightarrow> yields_empty v)"
  note ok = Schema.prems
  have ih_props: "?P v" if "(k, v) \<in> set (or_empty props)" for k v
  proof -
    from that obtain ps where ps: "props = Some ps" "(k, v) \<in> set ps"
      by (cases props) auto
    with ok have "declared_arrays v"
      by (auto simp: list_all_iff)
    with Schema.IH(1) [of ps "(k, v)" v] ps show ?thesis
      by simp
  qed
  have ih_items: "?P v" if "its = Some v" for v
    using Schema.IH(2) [of v] that ok by simp
  have ih_oo: "?P v" if "v \<in> set (array_elements oo)" for v
    using Schema.IH(3) [of v] that ok by (cases oo) (auto simp: list_all_iff)
  have ih_ao: "?P v" if "v \<in> set (array_elements ao)" for v
    using Schema.IH(4) [of v] that ok by (cases ao) (auto simp: list_all_iff)
  have ih_alo: "?P v" if "v \<in> set (array_elements alo)" for v
    using Schema.IH(5) [of v] that ok by (cases alo) (auto simp: list_all_iff)
  have ih_addl: "?P v" if "addl = Some v" for v
    using Schema.IH(6) [of v] that ok by simp
  have kw: "array_or_absent req" "array_or_absent en" "array_or_absent oo" "array_or_absent ao"
    "array_or_absent alo"
    using ok by simp_all
  let ?node = "Schema ty props req its desc en oo ao alo rf dflt addl"
  have obj: "\<exists>t. objectSchemaToTS ?node = Inr t \<and> t \<noteq> []"
  proof (cases "case props of None \<Rightarrow> True | Some ps \<Rightarrow> length (Object_keys ps) = 0")
    case True
    then show ?thesis
      using ih_addl by (cases addl) (auto split: option.splits)
  next
    case False
    let ?f = "\<lambda>(key, prop).
        let opt = (if key \<in> set (array_elements req) then [] else ''?'') in
        case jsonSchemaToTS prop of Inl e \<Rightarrow> Inl e | Inr t \<Rightarrow> Inr (key @ opt @ '': '' @ t)"
    have "\<exists>t. ?f kv = Inr t" if "kv \<in> set (Object_entries (or_empty props))" for kv
    proof -
      obtain k v where kv: "kv = (k, v)"
        by (cases kv)
      with that have "(k, v) \<in> set (or_empty props)"
        by (auto simp: Object_entries_def)
      then obtain t where "jsonSchemaToTS v = Inr t"
        using ih_props by blast
      with kv show ?thesis
        by (simp add: Let_def)
    qed
    then have "sequence_results (map ?f (Object_entries (or_empty props)))
                 = Inr (map (\<lambda>x. projr (?f x)) (Object_entries (or_empty props)))"
      by (intro sequence_results_map) blast
    moreover have "objectSchemaToTS ?node =
        (case sequence_results (map ?f (Object_entries (or_empty props))) of
           Inl e \<Rightarrow> Inl e
         | Inr fs \<Rightarrow> Inr (''{ '' @ join ''; '' fs @ '' }''))"
      using False by (simp add: Let_def new_Set_array_or_absent [OF kw(1)])
    ultimately show ?thesis
      by (simp del: objectSchemaToTS.simps)
  qed
  have json: "\<exists>t. jsonSchemaToTS ?node = Inr t \<and> (t = [] \<longleftrightarrow> yields_empty ?node)"
  proof (cases "truthy_keyword en")
    case True
    then obtain vs where "en = Array vs"
      using truthy_array_or_absent [OF kw(2)] by blast
    then show ?thesis
      by (auto simp: join_eq_Nil JSON_stringify_nonempty)
  next
    case no_enum: False
    show ?thesis
    proof (cases "truthy_keyword oo \<or> truthy_keyword ao")
      case True
      define vs where "vs = array_elements (or_keyword oo ao)"
      have k: "or_keyword oo ao = Array vs"
        using True kw(3,4) truthy_array_or_absent [of oo] truthy_array_or_absent [of ao]
        by (auto simp: or_keyword_def vs_def)
      have "?P v" if "v \<in> set vs" for v
        using that ih_oo ih_ao by (auto simp: vs_def or_keyword_def split: if_splits)
      from union_empty [of vs jsonSchemaToTS yields_empty "'' | ''", OF this]
      show ?thesis
        using no_enum True k by (simp add: or_keyword_def)
    next
      case no_union: False
      show ?thesis
      proof (cases "truthy_keyword alo")
        case True
        then obtain vs where vs: "alo = Array vs"
          using truthy_array_or_absent [OF kw(5)] by blast
        have "?P v" if "v \<in> set vs" for v
          using that ih_alo vs by simp
        from union_empty [of vs jsonSchemaToTS yields_empty "'' & ''", OF this]
        show ?thesis
          using no_enum no_union vs by simp
      next
        case no_all: False
        then have alo: "alo = Absent"
          using falsy_array_or_absent [OF kw(5)] by simp
        show ?thesis
        proof (cases "ty = Some ''array''")
          case True
          then show ?thesis
            using no_enum no_union no_all alo ih_items by (cases its) auto
        next
          case False
          then show ?thesis
            using no_enum no_union no_all alo obj by (auto simp del: objectSchemaToTS.simps)
        qed
      qed
    qed
  qed
  from obj json show ?case
    by simp
qed

lemma prop_description_ok:
  "v \<noteq> NonObject PNull \<Longrightarrow> \<exists>d. prop_description v = Inr d"
  by (cases v) auto

lemma jsonSchemaToTS_indent_returns:
  "declared_arrays s \<Longrightarrow> no_null_properties s \<Longrightarrow>
     \<exists>t. jsonSchemaToTS_indent s n = Inr t \<and> (t = [] \<longleftrightarrow> yields_empty s)"
proof (induction s arbitrary: n)
  case (NonObject p)
  show ?case by simp
next
  case (Schema ty props req its desc en oo ao alo rf dflt addl)
  let ?P = "\<lambda>v n. \<exists>t. jsonSchemaToTS_indent v n = Inr t \<and> (t = [] \<longleftrightarrow> yields_empty v)"
  let ?node = "Schema ty props req its desc en oo ao alo rf dflt addl"
  note ok = Schema.prems
  have ih_props: "?P v m \<and> v \<noteq> NonObject PNull" if "(k, v) \<in> set (or_empty props)" for k v m
  proof -
    from that obtain ps where ps: "props = Some ps" "(k, v) \<in> set ps"
      by (cases props) auto
    with ok have "v \<noteq> NonObject PNull" "no_null_properties v" "declared_arrays v"
      by (auto simp: list_all_iff)
    with Schema.IH(1) [of ps "(k, v)" v m] ps show ?thesis
      by simp
  qed
  have ih_items: "?P v m" if "its = Some v" for v m
    using Schema.IH(2) [of v m] that ok by simp
  have ih_oo: "?P v m" if "v \<in> set (array_elements oo)" for v m
    using Schema.IH(3) [of v m] that ok by (cases oo) (auto simp: list_all_iff)
  have ih_ao: "?P v m" if "v \<in> set (array_elements ao)" for v m
    using Schema.IH(4) [of v m] that ok by (cases ao) (auto simp: list_all_iff)
  have ih_alo: "?P v m" if "v \<in> set (array_elements alo)" for v m
    using Schema.IH(5) [of v m] that ok by (cases alo) (auto simp: list_all_iff)
  have ih_addl: "?P v m" if "addl = Some v" for v m
    using Schema.IH(6) [of v m] that ok by simp
  have kw: "array_or_absent req" "array_or_absent en" "array_or_absent oo" "array_or_absent ao"
    "array_or_absent alo"
    using ok by simp_all
  let ?spaces = "repeat ''  '' n"
  let ?f = "\<lambda>(key, prop).
      let optional = (if key \<in> set (array_elements req) then [] else ''?'') in
      case prop_description prop of
        Inl e \<Rightarrow> Inl e
      | Inr d \<Rightarrow>
          let comment =
            (case d of
               Some ds \<Rightarrow> if ds \<noteq> [] then ?spaces @ ''  /** '' @ ds @ '' */\<newline>'' else []
             | None \<Rightarrow> [])
          in
          case jsonSchemaToTS_indent prop (n + 1) of
            Inl e \<Rightarrow> Inl e
          | Inr t \<Rightarrow> Inr (comment @ ?spaces @ ''  '' @ key @ optional @ '': '' @ t @ '';'')"
  have "\<exists>t. ?f kv = Inr t" if "kv \<in> set (Object_entries (or_empty props))" for kv
  proof -
    obtain k v where kv: "kv = (k, v)"
      by (cases kv)
    with that have "(k, v) \<in> set (or_empty props)"
      by (auto simp: Object_entries_def)
    then obtain t d where "jsonSchemaToTS_indent v (n + 1) = Inr t" "prop_description v = Inr d"
      using ih_props [of k v "n + 1"] prop_description_ok [of v] by blast
    with kv show ?thesis
      by (simp add: Let_def)
  qed
  then have seq: "sequence_results (map ?f (Object_entries (or_empty props)))
               = Inr (map (\<lambda>x. projr (?f x)) (Object_entries (or_empty props)))"
    by (intro sequence_results_map) blast
  let ?arr = "case its of
      Some it \<Rightarrow>
        if truthy it then
          (case jsonSchemaToTS_indent it n of
             Inl e \<Rightarrow> Inl e
           | Inr t \<Rightarrow> Inr (t @ ''[]''))
        else Inr ''unknown[]''
    | None \<Rightarrow> Inr ''unknown[]''"
  let ?rec = "case addl of
      Some a \<Rightarrow>
        if a = NonObject (PBool True) then Inr ''Record<string, unknown>''
        else if truthy a \<and> typeof a = ''object'' then
          (case jsonSchemaToTS_indent a n of
             Inl e \<Rightarrow> Inl e
           | Inr t \<Rightarrow> Inr (''Record<string, '' @ t @ ''>''))
        else Inr ''Record<string, unknown>''
    | None \<Rightarrow> Inr ''Record<string, unknown>''"
  let ?obj = "\<lambda>ps. case sequence_results (map ?f (Object_entries ps)) of
      Inl e \<Rightarrow> Inl e
    | Inr lines \<Rightarrow> Inr (''{\<newline>'' @ join ''\<newline>'' lines @ ''\<newline>'' @ ?spaces @ ''}'')"
  have arr: "\<exists>t. ?arr = Inr t \<and> t \<noteq> []"
  proof (cases its)
    case None
    then show ?thesis by simp
  next
    case (Some it)
    then show ?thesis
      using ih_items [of it n] by auto
  qed
  have rec: "\<exists>t. ?rec = Inr t \<and> t \<noteq> []"
  proof (cases addl)
    case None
    then show ?thesis by simp
  next
    case (Some a)
    then show ?thesis
      using ih_addl [of a n] by auto
  qed
  have obj: "\<exists>t. ?obj ps = Inr t \<and> t \<noteq> []" if "props = Some ps" for ps
    using seq that by simp
  show ?case
  proof (cases "truthy_keyword en")
    case True
    then obtain vs where "en = Array vs"
      using truthy_array_or_absent [OF kw(2)] by blast
    then show ?thesis
      by (auto simp: join_eq_Nil JSON_stringify_nonempty)
  next
    case no_enum: False
    show ?thesis
    proof (cases "truthy_keyword oo \<or> truthy_keyword ao")
      case True
      define vs where "vs = array_elements (or_keyword oo ao)"
      have k: "or_keyword oo ao = Array vs"
        using True kw(3,4) truthy_array_or_absent [of oo] truthy_array_or_absent [of ao]
        by (auto simp: or_keyword_def vs_def)
      have "?P v n" if "v \<in> set vs" for v
        using that ih_oo ih_ao by (auto simp: vs_def or_keyword_def split: if_splits)
      from union_empty [of vs "\<lambda>v. jsonSchemaToTS_indent v n" yields_empty "'' | ''", OF this]
      show ?thesis
        using no_enum True k by (simp add: or_keyword_def)
    next
      case no_union: False
      show ?thesis
      proof (cases "truthy_keyword alo")
        case True
        then obtain vs where vs: "alo = Array vs"
          using truthy_array_or_absent [OF kw(5)] by blast
        have "?P v n" if "v \<in> set vs" for v
          using that ih_alo vs by simp
        from union_empty [of vs "\<lambda>v. jsonSchemaToTS_indent v n" yields_empty "'' & ''", OF this]
        show ?thesis
          using no_enum no_union vs by simp
      next
        case no_all: False
        then have alo: "alo = Absent"
          using falsy_array_or_absent [OF kw(5)] by simp
        have eq: "jsonSchemaToTS_indent ?node n =
          (if ty = Some ''string'' then Inr ''string''
           else if ty = Some ''number'' \<or> ty = Some ''integer'' then Inr ''number''
           else if ty = Some ''boolean'' then Inr ''boolean''
           else if ty = Some ''null'' then Inr ''null''
           else if ty = Some ''array'' then ?arr
           else if ty = Some ''object'' then
             (if (case props of None \<Rightarrow> True | Some ps \<Rightarrow> length (Object_keys ps) = 0)
              then ?rec else ?obj (or_empty props))
           else (case props of Some ps \<Rightarrow> ?obj ps | None \<Rightarrow> Inr ''unknown''))"
          unfolding Let_def
          using no_enum no_union no_all
          by (simp add: jsonSchemaToTS_indent.simps(2)
                  [of ty props req its desc en oo ao alo rf dflt addl n,
                    unfolded Let_def new_Set_array_or_absent [OF kw(1)] sum.case]
                del: jsonSchemaToTS_indent.simps)
        have yes: "\<not> yields_empty ?node"
          using no_enum no_union alo by simp
        show ?thesis
        proof (cases props)
          case None
          with yes arr rec show ?thesis
            unfolding eq by simp
        next
          case (Some ps)
          with yes arr rec obj [of ps] show ?thesis
            unfolding eq by simp
        qed
      qed
    qed
  qed
qed




lemma set_Object_entries: "set (Object_entries kvs) = set kvs"
  by (auto simp: Object_entries_def)

lemma map_jsonSchemaToTS_snd:
  "list_all (\<lambda>kv. declared_arrays (snd kv)) kvs \<Longrightarrow>
     \<exists>ts. map (\<lambda>kv. jsonSchemaToTS (snd kv)) kvs = map Inr ts"
proof (induction kvs)
  case Nil
  show ?case by simp
next
  case (Cons kv kvs)
  then obtain ts where "map (\<lambda>kv. jsonSchemaToTS (snd kv)) kvs = map Inr ts"
    by auto
  moreover obtain t where "jsonSchemaToTS (snd kv) = Inr t"
    using jsonSchemaToTS_returns [of "snd kv"] Cons.prems by auto
  ultimately have "map (\<lambda>kv. jsonSchemaToTS (snd kv)) (kv # kvs) = map Inr (t # ts)"
    by simp
  then show ?case
    by blast
qed

lemma sequence_results_fields:
  "map g xs = map Inr ts \<Longrightarrow>
     sequence_results (map (\<lambda>x. case g x of Inl e \<Rightarrow> Inl e | Inr t \<Rightarrow> Inr (h x t)) xs)
       = Inr (map2 h xs ts)"
proof (induction xs arbitrary: ts)
  case Nil
  then show ?case by simp
next
  case (Cons x xs)
  then obtain t ts' where ts: "ts = t # ts'" "g x = Inr t" "map g xs = map Inr ts'"
    by (cases ts) auto
  with Cons.IH [of ts'] show ?case
    by simp
qed

lemma length_Object_entries: "length (Object_entries kvs) = length kvs"
  by (simp add: Object_entries_def sum_length_filter_compl)

lemma Object_entries_no_index:
  "list_all (\<lambda>kv. \<not> is_array_index (fst kv)) kvs \<Longrightarrow> Object_entries kvs = kvs"
  by (simp add: Object_entries_def list_all_iff)

lemma initializers_append [simp]: "initializers (xs @ ys) = initializers xs @ initializers ys"
  by (simp add: initializers_def)

lemma initializers_Nil [simp]: "initializers [] = []"
  by (simp add: initializers_def)

lemma initializers_Cons [simp]: "initializers (x # xs) = initializer x @ initializers xs"
  by (simp add: initializers_def)

lemma zod_tool_step:
  "initializers (source (zod_tool conv st t))
     = initializers (source st)
       @ [(schema_name t, case conv (inputSchema t) of Inl err \<Rightarrow> ''z.any()'' | Inr z \<Rightarrow> z)]"
  "console (zod_tool conv st t)
     = console st
       @ (case conv (inputSchema t) of
            Inl err \<Rightarrow> [FailedToConvertSchema (tool_name t), UsingAnyFallback]
          | Inr z \<Rightarrow> [])"
  by (simp_all add: zod_tool_def convert_or_any_def schema_name_def Let_def split: sum.splits)

lemma zod_tool_cli_step:
  "initializers (source (zod_tool_cli conv st t))
     = initializers (source st)
       @ (schema_name t,
          case conv (inputSchema t) of Inl err \<Rightarrow> ''z.any()'' | Inr z \<Rightarrow> fixZodSchema z)
         # (case outputSchema t of
              None \<Rightarrow> []
            | Some out \<Rightarrow>
                if truthy out then
                  [(output_schema_name t,
                    case conv out of Inl err \<Rightarrow> ''z.any()'' | Inr z \<Rightarrow> fixZodSchema z)]
                else [])"
  "console (zod_tool_cli conv st t)
     = console st
       @ (case conv (inputSchema t) of
            Inl err \<Rightarrow> [FailedToConvertSchema (tool_name t), UsingAnyFallback]
          | Inr z \<Rightarrow> [])
       @ (case outputSchema t of
            None \<Rightarrow> []
          | Some out \<Rightarrow>
              if truthy out then
                (case conv out of
                   Inl err \<Rightarrow> [FailedToConvertOutputSchema (tool_name t), UsingAnyFallback]
                 | Inr z \<Rightarrow> [])
              else [])"
  by (simp_all add: zod_tool_cli_def convert_or_any_def schema_name_def output_schema_name_def
        Let_def split: sum.splits option.splits)

lemma foldl_zod_tool:
  "initializers (source (foldl (zod_tool conv) st tools))
     = initializers (source st)
       @ map (\<lambda>t. (schema_name t,
                   case conv (inputSchema t) of Inl err \<Rightarrow> ''z.any()'' | Inr z \<Rightarrow> z)) tools"
  "console (foldl (zod_tool conv) st tools)
     = console st
       @ concat (map (\<lambda>t. case conv (inputSchema t) of
                             Inl err \<Rightarrow> [FailedToConvertSchema (tool_name t), UsingAnyFallback]
                           | Inr z \<Rightarrow> []) tools)"
  by (induction tools arbitrary: st) (simp_all add: zod_tool_step)

lemma foldl_zod_tool_cli:
  "initializers (source (foldl (zod_tool_cli conv) st tools))
     = initializers (source st)
       @ concat (map (\<lambda>t.
           (schema_name t,
            case conv (inputSchema t) of Inl err \<Rightarrow> ''z.any()'' | Inr z \<Rightarrow> fixZodSchema z)
           # (case outputSchema t of
                None \<Rightarrow> []
              | Some out \<Rightarrow>
                  if truthy out then
                    [(output_schema_name t,
                      case conv out of Inl err \<Rightarrow> ''z.any()'' | Inr z \<Rightarrow> fixZodSchema z)]
                  else [])) tools)"
  "console (foldl (zod_tool_cli conv) st tools)
     = console st
       @ concat (map (\<lambda>t.
           (case conv (inputSchema t) of
              Inl err \<Rightarrow> [FailedToConvertSchema (tool_name t), UsingAnyFallback]
            | Inr z \<Rightarrow> [])
           @ (case outputSchema t of
                None \<Rightarrow> []
              | Some out \<Rightarrow>
                  if truthy out then
                    (case conv out of
                       Inl err \<Rightarrow> [FailedToConvertOutputSchema (tool_name t), UsingAnyFallback]
                     | Inr z \<Rightarrow> [])
                  else [])) tools)"
  by (induction tools arbitrary: st) (simp_all add: zod_tool_cli_step)

lemma push_tool_shift:
  "push_tool lines t
     = (case push_tool [] t of Inl e \<Rightarrow> Inl e | Inr block \<Rightarrow> Inr (lines @ block))"
  by (simp add: push_tool_def Let_def split: sum.splits option.splits)

lemma push_tools_blocks:
  "push_tools lines tools
     = (case sequence_results (map (push_tool []) tools) of
          Inl e \<Rightarrow> Inl e
        | Inr blocks \<Rightarrow> Inr (lines @ concat blocks))"
proof (induction tools arbitrary: lines)
  case Nil
  show ?case by simp
next
  case (Cons t tools)
  show ?case
  proof (cases "push_tool [] t")
    case (Inl e)
    then show ?thesis
      by (simp add: push_tool_shift [of lines t])
  next
    case (Inr block)
    then show ?thesis
      by (simp add: push_tool_shift [of lines t] Cons.IH [of "lines @ block"]
            split: sum.splits)
  qed
qed

lemma push_tool_block_params:
  "jsonSchemaToTS_indent (inputSchema t) 0 = Inr ty \<Longrightarrow>
     outputSchema t = None \<or> (outputSchema t = Some out \<and> \<not> truthy out) \<Longrightarrow>
     push_tool [] t = Inr [params_line t ty, []]"
  by (auto simp: push_tool_def Let_def params_line_def)

lemma push_tool_block_output:
  "jsonSchemaToTS_indent (inputSchema t) 0 = Inr ty \<Longrightarrow>
     outputSchema t = Some out \<Longrightarrow> truthy out \<Longrightarrow>
     jsonSchemaToTS_indent out 0 = Inr oty \<Longrightarrow>
     push_tool [] t = Inr [params_line t ty, [], output_line t oty, []]"
  by (auto simp: push_tool_def Let_def params_line_def output_line_def)

lemma push_tool_returns: "translatable t \<Longrightarrow> \<exists>block. push_tool [] t = Inr block"
proof -
  assume tr: "translatable t"
  obtain ty where ty: "jsonSchemaToTS_indent (inputSchema t) 0 = Inr ty"
    using tr jsonSchemaToTS_indent_returns [of "inputSchema t" 0]
    by (auto simp: translatable_def)
  show ?thesis
  proof (cases "outputSchema t")
    case None
    with ty show ?thesis
      by (simp add: push_tool_def Let_def)
  next
    case (Some out)
    then obtain oty where "jsonSchemaToTS_indent out 0 = Inr oty"
      using tr jsonSchemaToTS_indent_returns [of out 0]
      by (auto simp: translatable_def)
    with ty Some show ?thesis
      by (simp add: push_tool_def Let_def)
  qed
qed

lemma push_tools_return:
  "list_all translatable tools \<Longrightarrow>
     \<exists>blocks. sequence_results (map (push_tool []) tools) = Inr blocks"
proof -
  assume "list_all translatable tools"
  then have "\<exists>block. push_tool [] t = Inr block" if "t \<in> set tools" for t
    using that push_tool_returns [of t] by (simp add: list_all_iff)
  then have "sequence_results (map (push_tool []) tools)
      = Inr (map (\<lambda>t. projr (push_tool [] t)) tools)"
    by (intro sequence_results_map) blast
  then show ?thesis
    by blast
qed

section \<open>The claims\<close>




text \<open>
  C2. A node whose \<open>enum\<close> is present and not empty translates, in both translators, to
  the \<open>JSON.stringify\<close> text of each element joined by \<open>" | "\<close>, in the order of the
  input and with duplicates kept, whatever the other keywords of the node are (\<open>type\<close> in
  particular). The witness holds the scenario \<open>{enum: ["a", "b", 3]}\<close>.
\<close>

theorem enum_literal_union:
  "vs \<noteq> [] \<Longrightarrow>
     jsonSchemaToTS (Schema ty props req its desc (Array vs) oo ao alo rf dflt addl)
       = Inr (join '' | '' (map JSON_stringify vs))
     \<and> jsonSchemaToTS_indent (Schema ty props req its desc (Array vs) oo ao alo rf dflt addl)
         indent
       = Inr (join '' | '' (map JSON_stringify vs))"
  by (simp add: Let_def)

theorem enum_literal_union_witness:
  \<open>[JStr ''a'', JStr ''b'', JNum 3] \<noteq> []
   \<and> jsonSchemaToTS (with_enum (Array [JStr ''a'', JStr ''b'', JNum 3]))
       = Inr ''"a" | "b" | 3''
   \<and> jsonSchemaToTS_indent (with_enum (Array [JStr ''a'', JStr ''b'', JNum 3])) 0
       = Inr ''"a" | "b" | 3''
   \<and> jsonSchemaToTS
         (Schema (Some ''string'') None Absent None None (Array [JStr ''a'', JStr ''a''])
            Absent Absent Absent None None None) = Inr ''"a" | "a"''\<close>
  using enum_literal_union [of "[JStr ''a'', JStr ''b'', JNum 3]" None None Absent None None
      Absent Absent Absent None None None 0]
    enum_literal_union [of "[JStr ''a'', JStr ''a'']" "Some ''string''" None Absent None None
      Absent Absent Absent None None None 0]
  by (simp add: quote_def escape_char_def char_defs show_int_def)

text \<open>
  C3 as stated fails: with the properties created in the order \<open>b\<close>, \<open>1\<close> the fields are
  emitted in the order \<open>1\<close>, \<open>b\<close>, since \<open>Object.entries\<close> enumerates array-index keys
  first.
\<close>

theorem object_fields_insertion_order_counterexample:
  "objectSchemaToTS
     (object_of [(''b'', of_type ''string''), (''1'', of_type ''number'')] (Array []))
     = Inr ''{ 1?: number; b?: string }''
   \<and> map fst (Object_entries [(''b'', of_type ''string''), (''1'', of_type ''number'')])
     = [''1'', ''b'']"
  by (simp add: entries_defs char_defs)

text \<open>
  C3 (amended). For a node with non-empty \<open>properties\<close>, \<open>objectSchemaToTS\<close> emits one
  field per property in the enumeration order of \<open>Object.entries\<close>: the keys that are array
  indices first, in ascending numeric order, then the other keys in insertion order, which
  is exactly the insertion order when no key is an array index. A field whose key is in
  \<open>required\<close> carries no marker, every other field carries \<open>?\<close>; \<open>req_set\<close> is the set
  \<open>new Set(schema.required || [])\<close>, for an array its elements. The type of a field is the
  translation of its property, which exists for every property whose keywords are of the
  declared types. The witness holds the scenario with the properties \<open>x\<close> and \<open>y\<close> and
  \<open>required: ["x"]\<close>.
\<close>

theorem object_fields_in_enumeration_order:
  "ps \<noteq> [] \<Longrightarrow> new_Set req = Inr req_set \<Longrightarrow>
     (map (\<lambda>kv. jsonSchemaToTS (snd kv)) (Object_entries ps) = map Inr ts \<longrightarrow>
        objectSchemaToTS (Schema ty (Some ps) req its desc en oo ao alo rf dflt addl)
          = Inr (''{ ''
              @ join ''; ''
                  (map2 (\<lambda>kv t. fst kv @ (if fst kv \<in> req_set then [] else ''?'') @ '': '' @ t)
                     (Object_entries ps) ts)
              @ '' }''))
     \<and> (list_all (\<lambda>kv. declared_arrays (snd kv)) ps \<longrightarrow>
          (\<exists>ts. map (\<lambda>kv. jsonSchemaToTS (snd kv)) (Object_entries ps) = map Inr ts
             \<and> objectSchemaToTS (Schema ty (Some ps) req its desc en oo ao alo rf dflt addl)
                 = Inr (''{ ''
                     @ join ''; ''
                         (map2 (\<lambda>kv t. fst kv @ (if fst kv \<in> req_set then [] else ''?'')
                                 @ '': '' @ t)
                            (Object_entries ps) ts)
                     @ '' }'')))
     \<and> Object_entries ps
         = sort_key (\<lambda>kv. index_value (fst kv)) (filter (\<lambda>kv. is_array_index (fst kv)) ps)
           @ filter (\<lambda>kv. \<not> is_array_index (fst kv)) ps
     \<and> (list_all (\<lambda>kv. \<not> is_array_index (fst kv)) ps \<longrightarrow> Object_entries ps = ps)"
proof -
  assume ps: "ps \<noteq> []" and req: "new_Set req = Inr req_set"
  let ?h = "\<lambda>kv t. fst kv @ (if fst kv \<in> req_set then [] else ''?'') @ '': '' @ t"
  let ?g = "\<lambda>kv :: string \<times> schema. jsonSchemaToTS (snd kv)"
  let ?node = "Schema ty (Some ps) req its desc en oo ao alo rf dflt addl"
  have keys: "Object_keys ps \<noteq> []"
    using ps length_Object_entries [of ps] by (auto simp: Object_keys_def)
  have unfold: "objectSchemaToTS ?node
      = (case sequence_results
               (map (\<lambda>x. case ?g x of Inl e \<Rightarrow> Inl e | Inr t \<Rightarrow> Inr (?h x t))
                  (Object_entries ps)) of
           Inl e \<Rightarrow> Inl e
         | Inr fs \<Rightarrow> Inr (''{ '' @ join ''; '' fs @ '' }''))"
    using keys req by (simp add: Let_def split_def)
  have given: "objectSchemaToTS ?node
      = Inr (''{ '' @ join ''; '' (map2 ?h (Object_entries ps) us) @ '' }'')"
    if "map ?g (Object_entries ps) = map Inr us" for us
    unfolding unfold by (simp add: sequence_results_fields [OF that])
  have "\<exists>ts. map ?g (Object_entries ps) = map Inr ts
        \<and> objectSchemaToTS ?node
            = Inr (''{ '' @ join ''; '' (map2 ?h (Object_entries ps) ts) @ '' }'')"
    if wt: "list_all (\<lambda>kv. declared_arrays (snd kv)) ps"
  proof -
    have "list_all (\<lambda>kv. declared_arrays (snd kv)) (Object_entries ps)"
      using wt by (simp add: list_all_iff set_Object_entries)
    then obtain us where "map ?g (Object_entries ps) = map Inr us"
      using map_jsonSchemaToTS_snd by blast
    with given [of us] show ?thesis
      by blast
  qed
  then show ?thesis
    using given [of ts] Object_entries_no_index [of ps]
    by (simp add: Object_entries_def del: objectSchemaToTS.simps)
qed

theorem object_fields_in_enumeration_order_witness:
  "[(''x'', of_type ''string''), (''y'', of_type ''number'')] \<noteq> []
   \<and> new_Set (Array [''x'']) = Inr {''x''}
   \<and> list_all (\<lambda>kv. declared_arrays (snd kv))
        [(''x'', of_type ''string''), (''y'', of_type ''number'')]
   \<and> list_all (\<lambda>kv. \<not> is_array_index (fst kv))
        [(''x'', of_type ''string''), (''y'', of_type ''number'')]
   \<and> Object_entries [(''x'', of_type ''string''), (''y'', of_type ''number'')]
       = [(''x'', of_type ''string''), (''y'', of_type ''number'')]
   \<and> objectSchemaToTS
        (object_of [(''x'', of_type ''string''), (''y'', of_type ''number'')] (Array [''x'']))
       = Inr ''{ x: string; y?: number }''
   \<and> jsonSchemaToTS
        (object_of [(''x'', of_type ''string''), (''y'', of_type ''number'')] (Array [''x'']))
       = Inr ''{ x: string; y?: number }''"
  using object_fields_in_enumeration_order
    [of "[(''x'', of_type ''string''), (''y'', of_type ''number'')]" "Array [''x'']" "{''x''}"
      "[''string'', ''number'']" "Some ''object''" None None Absent Absent Absent Absent None
      None None]
  by (simp add: entries_defs char_defs)

text \<open>
  C4 as stated fails in each translator: with \<open>additionalProperties: true\<close> the translator
  with indentation returns \<open>unknown\<close>, not the open map, and with
  \<open>additionalProperties\<close> absent \<open>src/index.ts\<close> returns \<open>{}\<close>, not \<open>unknown\<close>.
\<close>

theorem fallback_counterexample:
  "jsonSchemaToTS_indent
     (Schema None None Absent None None Absent Absent Absent Absent None None
        (Some (NonObject (PBool True)))) 0 = Inr ''unknown''
   \<and> jsonSchemaToTS_indent
     (Schema None None Absent None None Absent Absent Absent Absent None None
        (Some (NonObject (PBool True)))) 0 \<noteq> Inr ''Record<string, unknown>''
   \<and> jsonSchemaToTS
     (Schema None None Absent None None Absent Absent Absent Absent None None None) = Inr ''{}''
   \<and> jsonSchemaToTS
     (Schema None None Absent None None Absent Absent Absent Absent None None None)
     \<noteq> Inr ''unknown''"
  by (simp add: Let_def)

text \<open>
  C4 (amended). For a node without enum, oneOf, anyOf and allOf, with \<open>type\<close> and
  \<open>properties\<close> absent: the translator with indentation returns \<open>unknown\<close> whatever
  \<open>additionalProperties\<close> is; \<open>src/index.ts\<close> returns \<open>Record<string, unknown>\<close> when
  \<open>additionalProperties\<close> is \<open>true\<close>, \<open>Record<string, T>\<close> with \<open>T\<close> the translation
  of \<open>additionalProperties\<close> when that is a schema object, and \<open>{}\<close> when it is absent.
\<close>

theorem fallback_by_variant:
  "jsonSchemaToTS_indent
     (Schema None None req its desc Absent Absent Absent Absent rf dflt addl) indent
     = Inr ''unknown''
   \<and> jsonSchemaToTS
       (Schema None None req its desc Absent Absent Absent Absent rf dflt
          (Some (NonObject (PBool True))))
     = Inr ''Record<string, unknown>''
   \<and> jsonSchemaToTS
       (Schema None None req its desc Absent Absent Absent Absent rf dflt
          (Some (Schema ty' props' req' its' desc' en' oo' ao' alo' rf' dflt' addl')))
     = (case jsonSchemaToTS (Schema ty' props' req' its' desc' en' oo' ao' alo' rf' dflt' addl') of
          Inl e \<Rightarrow> Inl e
        | Inr t \<Rightarrow> Inr (''Record<string, '' @ t @ ''>''))
   \<and> jsonSchemaToTS (Schema None None req its desc Absent Absent Absent Absent rf dflt None)
     = Inr ''{}''"
  by (simp add: Let_def)

theorem fallback_by_variant_witness:
  "jsonSchemaToTS
     (Schema None None Absent None None Absent Absent Absent Absent None None
        (Some (of_type ''number'')))
   = Inr ''Record<string, number>''
   \<and> jsonSchemaToTS
     (Schema None None Absent None None Absent Absent Absent Absent None None
        (Some (NonObject (PBool True)))) = Inr ''Record<string, unknown>''
   \<and> jsonSchemaToTS_indent
     (Schema None None Absent None None Absent Absent Absent Absent None None
        (Some (of_type ''number''))) 0 = Inr ''unknown''"
  using fallback_by_variant [of Absent None None None None "Some (of_type ''number'')" 0
      "Some ''number''" None Absent None None Absent Absent Absent Absent None None None]
  by (simp add: Let_def)




text \<open>
  C6. In both validator generators the loop runs over all tools whatever the converter
  does: every tool gets its schema constant, in order; the initializer is \<open>z.any()\<close> for
  exactly the schemas on which the converter throws, and is the converted text (after
  \<open>fixZodSchema\<close> in the command-line script) otherwise; the two warnings are logged for
  exactly the failing schemas.
\<close>

theorem zod_conversion_failure_is_local:
  "initializers (source (zod_tools conv tools))
     = map (\<lambda>t. (schema_name t,
                 case conv (inputSchema t) of Inl err \<Rightarrow> ''z.any()'' | Inr z \<Rightarrow> z)) tools
   \<and> console (zod_tools conv tools)
     = concat (map (\<lambda>t. case conv (inputSchema t) of
                           Inl err \<Rightarrow> [FailedToConvertSchema (tool_name t), UsingAnyFallback]
                         | Inr z \<Rightarrow> []) tools)
   \<and> initializers (source (zod_tools_cli conv tools))
     = concat (map (\<lambda>t.
         (schema_name t,
          case conv (inputSchema t) of Inl err \<Rightarrow> ''z.any()'' | Inr z \<Rightarrow> fixZodSchema z)
         # (case outputSchema t of
              None \<Rightarrow> []
            | Some out \<Rightarrow>
                if truthy out then
                  [(output_schema_name t,
                    case conv out of Inl err \<Rightarrow> ''z.any()'' | Inr z \<Rightarrow> fixZodSchema z)]
                else [])) tools)
   \<and> console (zod_tools_cli conv tools)
     = concat (map (\<lambda>t.
         (case conv (inputSchema t) of
            Inl err \<Rightarrow> [FailedToConvertSchema (tool_name t), UsingAnyFallback]
          | Inr z \<Rightarrow> [])
         @ (case outputSchema t of
              None \<Rightarrow> []
            | Some out \<Rightarrow>
                if truthy out then
                  (case conv out of
                     Inl err \<Rightarrow> [FailedToConvertOutputSchema (tool_name t), UsingAnyFallback]
                   | Inr z \<Rightarrow> [])
                else [])) tools)"
  by (simp add: zod_tools_def zod_tools_cli_def foldl_zod_tool foldl_zod_tool_cli initial_state_def)

theorem zod_conversion_failure_is_local_witness:
  "initializers (source (zod_tools only_strings three_tools))
     = [(''ASchema'', ''z.string()''), (''BSchema'', ''z.any()''), (''CSchema'', ''z.string()'')]
   \<and> console (zod_tools only_strings three_tools)
     = [FailedToConvertSchema ''b'', UsingAnyFallback]
   \<and> initializers (source (zod_tools_cli only_strings three_tools))
     = [(''ASchema'', ''z.string()''), (''BSchema'', ''z.any()''), (''CSchema'', ''z.string()''),
        (''COutputSchema'', ''z.any()'')]
   \<and> console (zod_tools_cli only_strings three_tools)
     = [FailedToConvertSchema ''b'', UsingAnyFallback,
        FailedToConvertOutputSchema ''c'', UsingAnyFallback]"
proof -
  have unchanged: "fixZodSchema ''z.string()'' = ''z.string()''"
    by code_simp
  show ?thesis
    using zod_conversion_failure_is_local [of only_strings three_tools]
    by (simp add: schema_name_def output_schema_name_def ident_defs char_defs unchanged)
qed

text \<open>
  C7. \<open>fixZodSchema\<close> is meant to insert \<open>.nullable()\<close> behind a primitive schema that is
  followed, possibly after chained calls such as \<open>.describe(...)\<close>, by
  \<open>.default(null)\<close>. It does so when the description holds no closing parenthesis; when
  it holds one, the expression \<open>[^)]*\<close> ends the call there, nothing matches, and the
  string is returned unchanged.
\<close>

theorem fixZodSchema_parenthesis_in_description:
  \<open>fixZodSchema ''z.string().describe("Size (cm)").default(null)''
     = ''z.string().describe("Size (cm)").default(null)''
   \<and> fixZodSchema ''z.string().describe("Size").default(null)''
     = ''z.string().nullable().describe("Size").default(null)''\<close>
  by code_simp

text \<open>
  C8 as stated fails in its last part: with the tools \<open>do-thing\<close> and \<open>do_thing\<close> in one
  run, the declaration of the earlier tool is still in the written lines, before that of
  the later tool; nothing is overwritten.
\<close>

theorem colliding_names_counterexample:
  \<open>toValidIdentifier ''do-thing'' = ''do_thing''
   \<and> toValidIdentifier ''do_thing'' = ''do_thing''
   \<and> main_lines do_thing_tools
     = Wrote [''// Auto-generated by mcp-to-typescript-codegen'',
              ''// Do not edit manually'',
              [],
              ''export type DoThingParams = {\<newline>  a?: string;\<newline>};'',
              [],
              ''export type DoThingParams = {\<newline>  b?: number;\<newline>};'',
              [],
              ''export type ToolName = "do-thing" | "do_thing";'',
              [],
              ''export const toolNames = ['',
              ''  "do-thing",'',
              ''  "do_thing"'',
              ''] as const;'']\<close>
  by (simp add: main_lines_def push_tool_def Let_def ident_defs char_defs entries_defs
        repeat_def quote_def escape_char_def)

text \<open>
  C8 (amended). \<open>toValidIdentifier\<close> replaces every character outside \<open>[A-Za-z0-9_]\<close> by
  \<open>_\<close> and keeps the length of the input; \<open>do-thing\<close> and \<open>do_thing\<close> both become
  \<open>do_thing\<close>. The loop over the tools appends to the lines pushed before, for each tool
  in the order of the tools, the block of that tool alone: its Params declaration and a
  blank line, and for a truthy output schema its Output declaration and a blank line.
  So two tools with the same derived name both have their declarations written, in tool
  order, and nothing is overwritten or dropped. The collision is no error: the run throws
  only when a translation does, and none does when the keywords of the schemas are of the
  declared types and no value under \<open>properties\<close> is \<open>null\<close>.
\<close>

theorem colliding_names_both_emitted:
  "length (toValidIdentifier name) = length name
   \<and> (\<forall>i < length name.
         toValidIdentifier name ! i
           = (if is_ident_char (name ! i) then name ! i else CHR ''_''))
   \<and> toValidIdentifier ''do-thing'' = ''do_thing''
   \<and> toValidIdentifier ''do_thing'' = ''do_thing''
   \<and> push_tools lines tools
       = (case sequence_results (map (push_tool []) tools) of
            Inl e \<Rightarrow> Inl e
          | Inr blocks \<Rightarrow> Inr (lines @ concat blocks))
   \<and> (jsonSchemaToTS_indent (inputSchema t) 0 = Inr ty \<longrightarrow>
        (outputSchema t = None \<or> (outputSchema t = Some out \<and> \<not> truthy out) \<longrightarrow>
           push_tool [] t = Inr [params_line t ty, []])
        \<and> (outputSchema t = Some out \<and> truthy out \<and> jsonSchemaToTS_indent out 0 = Inr oty \<longrightarrow>
             push_tool [] t = Inr [params_line t ty, [], output_line t oty, []]))
   \<and> (list_all translatable tools \<longrightarrow>
        (\<exists>blocks. sequence_results (map (push_tool []) tools) = Inr blocks))
   \<and> (tools \<noteq> [] \<and> sequence_results (map (push_tool []) tools) = Inr blocks \<longrightarrow>
        (\<exists>trailer. main_lines tools
           = Wrote ([''// Auto-generated by mcp-to-typescript-codegen'',
                     ''// Do not edit manually'', []]
                    @ concat blocks @ trailer)))"
proof -
  have names: "toValidIdentifier ''do-thing'' = ''do_thing''"
    "toValidIdentifier ''do_thing'' = ''do_thing''"
    by (simp_all add: ident_defs char_defs)
  have block: "jsonSchemaToTS_indent (inputSchema t) 0 = Inr ty \<longrightarrow>
        (outputSchema t = None \<or> (outputSchema t = Some out \<and> \<not> truthy out) \<longrightarrow>
           push_tool [] t = Inr [params_line t ty, []])
        \<and> (outputSchema t = Some out \<and> truthy out \<and> jsonSchemaToTS_indent out 0 = Inr oty \<longrightarrow>
             push_tool [] t = Inr [params_line t ty, [], output_line t oty, []])"
    using push_tool_block_params [of t ty out] push_tool_block_output [of t ty out oty] by blast
  have written: "tools \<noteq> [] \<and> sequence_results (map (push_tool []) tools) = Inr blocks \<longrightarrow>
        (\<exists>trailer. main_lines tools
           = Wrote ([''// Auto-generated by mcp-to-typescript-codegen'',
                     ''// Do not edit manually'', []]
                    @ concat blocks @ trailer))"
    by (simp add: main_lines_def push_tools_blocks
          [of "[''// Auto-generated by mcp-to-typescript-codegen'', ''// Do not edit manually'', []]"])
  show ?thesis
    using names block written push_tools_blocks [of lines tools] push_tools_return [of tools]
    by (simp add: toValidIdentifier_def)
qed

theorem colliding_names_both_emitted_witness:
  \<open>list_all translatable do_thing_tools
   \<and> length (toValidIdentifier ''do-thing'') = length ''do-thing''
   \<and> toValidIdentifier ''do-thing'' ! 2 = CHR ''_''
   \<and> push_tool [] (hd do_thing_tools)
       = Inr [''export type DoThingParams = {\<newline>  a?: string;\<newline>};'', []]
   \<and> push_tools [''kept''] do_thing_tools
       = Inr [''kept'',
              ''export type DoThingParams = {\<newline>  a?: string;\<newline>};'', [],
              ''export type DoThingParams = {\<newline>  b?: number;\<newline>};'', []]
   \<and> (\<exists>trailer. main_lines do_thing_tools
         = Wrote ([''// Auto-generated by mcp-to-typescript-codegen'',
                   ''// Do not edit manually'', [],
                   ''export type DoThingParams = {\<newline>  a?: string;\<newline>};'', [],
                   ''export type DoThingParams = {\<newline>  b?: number;\<newline>};'', []]
                  @ trailer))\<close>
proof -
  let ?a = "''{\<newline>  a?: string;\<newline>}''"
  let ?b = "''{\<newline>  b?: number;\<newline>}''"
  let ?blocks = "[[''export type DoThingParams = '' @ ?a @ '';'', []],
                  [''export type DoThingParams = '' @ ?b @ '';'', []]]"
  have tr: "list_all translatable do_thing_tools"
    by (simp add: translatable_def)
  have ty: "jsonSchemaToTS_indent (inputSchema (hd do_thing_tools)) 0 = Inr ?a"
    "jsonSchemaToTS_indent (inputSchema (hd (tl do_thing_tools))) 0 = Inr ?b"
    by (simp_all add: Let_def entries_defs char_defs repeat_def)
  note inst = colliding_names_both_emitted [of "''do-thing''" "[''kept'']" do_thing_tools
      "hd do_thing_tools" ?a "NonObject PNull" "[]" ?blocks]
  have first: "push_tool [] (hd do_thing_tools) = Inr [params_line (hd do_thing_tools) ?a, []]"
    using inst ty(1) by simp
  have second: "push_tool [] (hd (tl do_thing_tools))
      = Inr [params_line (hd (tl do_thing_tools)) ?b, []]"
    using colliding_names_both_emitted [of "''do-thing''" "[]" "[]" "hd (tl do_thing_tools)" ?b
        "NonObject PNull" "[]" "[]"] ty(2)
    by simp
  have seq: "sequence_results (map (push_tool []) do_thing_tools) = Inr ?blocks"
    using first second by (simp add: params_line_def ident_defs char_defs)
  have idx: "toValidIdentifier ''do-thing'' ! 2 = CHR ''_''"
    using inst by (simp add: ident_defs char_defs)
  have loop: "push_tools [''kept''] do_thing_tools = Inr ([''kept''] @ concat ?blocks)"
    using inst seq by simp
  have main: "\<exists>trailer. main_lines do_thing_tools
         = Wrote ([''// Auto-generated by mcp-to-typescript-codegen'',
                   ''// Do not edit manually'', []] @ concat ?blocks @ trailer)"
    using inst seq by simp
  show ?thesis
    using tr idx first loop main
    by (simp add: toValidIdentifier_def params_line_def ident_defs char_defs)
qed

text \<open>
  C9. An array node (dispatched on \<open>type: "array"\<close>, so without enum, oneOf, anyOf and
  allOf) with \<open>items\<close> present: the translator with indentation returns the translation
  of the items followed by \<open>[]\<close>, with no parentheses, while \<open>src/index.ts\<close> puts the
  translation of truthy items in parentheses first. The witness holds the items
  \<open>{oneOf: [string, number]}\<close>: \<open>string | number[]\<close> against \<open>(string | number)[]\<close>.
\<close>

theorem array_item_suffix:
  "jsonSchemaToTS_indent
     (Schema (Some ''array'') props req (Some it) desc Absent Absent Absent Absent rf dflt addl)
     indent
     = (case jsonSchemaToTS_indent it indent of Inl e \<Rightarrow> Inl e | Inr t \<Rightarrow> Inr (t @ ''[]''))
   \<and> (truthy it \<longrightarrow>
        jsonSchemaToTS
          (Schema (Some ''array'') props req (Some it) desc Absent Absent Absent Absent rf dflt
             addl)
        = (case jsonSchemaToTS it of Inl e \<Rightarrow> Inl e | Inr t \<Rightarrow> Inr (''('' @ t @ '')[]'')))"
  by (cases it) (simp_all add: Let_def)

theorem array_item_suffix_witness:
  "truthy (Schema None None Absent None None Absent
             (Array [of_type ''string'', of_type ''number'']) Absent Absent None None None)
   \<and> jsonSchemaToTS_indent
         (Schema (Some ''array'') None Absent
            (Some (Schema None None Absent None None Absent
                     (Array [of_type ''string'', of_type ''number'']) Absent Absent None None
                     None))
            None Absent Absent Absent Absent None None None) 0
       = Inr ''string | number[]''
   \<and> jsonSchemaToTS
         (Schema (Some ''array'') None Absent
            (Some (Schema None None Absent None None Absent
                     (Array [of_type ''string'', of_type ''number'']) Absent Absent None None
                     None))
            None Absent Absent Absent Absent None None None)
       = Inr ''(string | number)[]''"
  using array_item_suffix [of None Absent
      "Schema None None Absent None None Absent
         (Array [of_type ''string'', of_type ''number'']) Absent Absent None None None"
      None None None None 0]
  by (simp add: Let_def or_keyword_def)

text \<open>
  C10. In \<open>src/index.ts\<close>, a node without enum, oneOf, anyOf and allOf whose \<open>type\<close> is a
  string other than string, number, integer, boolean, null and array is translated by
  \<open>objectSchemaToTS\<close>, and the result is never \<open>unknown\<close>. The witness holds
  \<open>{type: "date"}\<close>, which gives \<open>{}\<close>.
\<close>

theorem other_type_object_rule:
  "t \<notin> {''string'', ''number'', ''integer'', ''boolean'', ''null'', ''array''} \<Longrightarrow>
     jsonSchemaToTS (Schema (Some t) props req its desc Absent Absent Absent Absent rf dflt addl)
       = objectSchemaToTS
           (Schema (Some t) props req its desc Absent Absent Absent Absent rf dflt addl)
     \<and> jsonSchemaToTS (Schema (Some t) props req its desc Absent Absent Absent Absent rf dflt addl)
       \<noteq> Inr ''unknown''"
proof -
  assume t: "t \<notin> {''string'', ''number'', ''integer'', ''boolean'', ''null'', ''array''}"
  let ?node = "Schema (Some t) props req its desc Absent Absent Absent Absent rf dflt addl"
  from t have eq: "jsonSchemaToTS ?node = objectSchemaToTS ?node"
    by (simp del: objectSchemaToTS.simps)
  have "objectSchemaToTS ?node \<noteq> Inr ''unknown''"
    by (auto simp: Let_def split: option.splits sum.splits)
  with eq show ?thesis
    by simp
qed

theorem other_type_object_rule_witness:
  "''date'' \<notin> {''string'', ''number'', ''integer'', ''boolean'', ''null'', ''array''}
   \<and> jsonSchemaToTS (of_type ''date'') = Inr ''{}''
   \<and> jsonSchemaToTS (of_type ''foo'') = Inr ''{}''"
  using other_type_object_rule [of "''date''" None Absent None None None None None]
  by simp

end
